theory Spec2Isabelle
  imports Complex_Main "HOL-Library.Sublist"
begin

section \<open>Silence-aware audio splitting (\<open>funcs/subfuncs/find_and_split.py\<close>)\<close>

text \<open>
  The script probes the duration of an audio file, parses the silence markers that the
  silence-detection pass prints, and then cuts the file greedily at the silence nearest
  to a moving target, writing one manifest entry per clip.

  Times are Python floats in the source. They are modelled as exact rationals
  (\<^typ>\<open>rat\<close>): comparison, addition, subtraction, halving and absolute value are the
  exact operations, so the rounding of IEEE doubles, infinities and NaN are outside the
  model. \<open>float('inf')\<close>, the initial value of \<open>min_dist\<close>, is \<open>None\<close> of
  \<^typ>\<open>rat option\<close>.
\<close>

subsection \<open>Data\<close>

type_synonym silence = "rat \<times> rat"

text \<open>
  One call of \<open>subprocess.run(["ffmpeg", "-i", input_file, "-ss", str(current_pos),
  "-to", str(split_point), "-c", "copy", "-y", output_filepath], check=True, ...)\<close>,
  with the value of \<open>clip_num\<close> at the call.
\<close>

record copy_command =
  cmd_clip_num :: nat
  cmd_input :: string
  cmd_ss :: rat
  cmd_to :: rat
  cmd_output :: string

text \<open>The dictionary \<open>clip_info\<close>.\<close>

record clip_info =
  filename :: string
  source_start_time :: rat

text \<open>
  The local variables of \<open>split_audio\<close> that the loop updates, and the trace of the
  stream-copy calls made so far (the effect of the loop on the outside).
\<close>

record split_state =
  clip_manifest :: "clip_info list"
  current_pos :: rat
  clip_num :: nat
  commands :: "copy_command list"

datatype py_error = SystemExit int | CalledProcessError | ValueError | OSError

subsection \<open>Choosing the split point (lines 88 to 107)\<close>

definition lt_inf :: "rat \<Rightarrow> rat option \<Rightarrow> bool" where
  "lt_inf d m = (case m of None \<Rightarrow> True | Some x \<Rightarrow> d < x)"

definition mid_point :: "silence \<Rightarrow> rat" where
  "mid_point s = fst s + (snd s - fst s) / 2"

text \<open>
  The \<open>for start, end in silences\<close> loop; the pair is
  \<open>(best_silence, min_dist)\<close>.
\<close>

fun scan_silences ::
  "rat \<Rightarrow> rat \<Rightarrow> silence list \<Rightarrow> silence option \<times> rat option \<Rightarrow> silence option \<times> rat option"
where
  "scan_silences cur target_split_time [] acc = acc"
| "scan_silences cur target_split_time ((s_start, s_end) # rest) (best_silence, min_dist) =
     (if s_start > cur then
        (let silence_mid_point = s_start + (s_end - s_start) / 2;
             dist = \<bar>silence_mid_point - target_split_time\<bar>
         in if lt_inf dist min_dist
            then scan_silences cur target_split_time rest (Some (s_start, s_end), Some dist)
            else scan_silences cur target_split_time rest (best_silence, min_dist))
      else scan_silences cur target_split_time rest (best_silence, min_dist))"

definition best_silence_of :: "rat \<Rightarrow> rat \<Rightarrow> silence list \<Rightarrow> silence option" where
  "best_silence_of cur target_split_time silences =
     fst (scan_silences cur target_split_time silences (None, None))"

definition split_point_of :: "rat \<Rightarrow> silence list \<Rightarrow> rat \<Rightarrow> rat \<Rightarrow> rat" where
  "split_point_of target_duration_sec silences total_duration cur =
     (let target_split_time = cur + target_duration_sec
      in if target_split_time \<ge> total_duration then total_duration
         else (case best_silence_of cur target_split_time silences of
                 Some best_silence \<Rightarrow> fst best_silence + (snd best_silence - fst best_silence) / 2
               | None \<Rightarrow> total_duration))"

subsection \<open>File names (lines 80, 81, 112, 113)\<close>

definition digit_char :: "nat \<Rightarrow> char" where
  "digit_char d = char_of (48 + d)"

fun show_nat :: "nat \<Rightarrow> string" where
  "show_nat n = (if n < 10 then [digit_char n] else show_nat (n div 10) @ [digit_char (n mod 10)])"

text \<open>The format \<open>{clip_num:03d}\<close>: decimal digits, padded with zeros on the left to width 3.\<close>

definition pad3 :: "nat \<Rightarrow> string" where
  "pad3 n = replicate (3 - length (show_nat n)) (CHR ''0'') @ show_nat n"

text \<open>\<open>os.path.basename\<close> (POSIX): what follows the last slash.\<close>

definition basename :: "string \<Rightarrow> string" where
  "basename p = rev (takeWhile (\<lambda>c. c \<noteq> CHR ''/'') (rev p))"

text \<open>
  \<open>os.path.splitext\<close> (POSIX): the extension starts at the last dot of the last path
  component, unless only dots precede it in that component.
\<close>

definition splitext :: "string \<Rightarrow> string \<times> string" where
  "splitext p =
     (let b = basename p;
          d = length p - length b;
          ext_rev = takeWhile (\<lambda>c. c \<noteq> CHR ''.'') (rev b);
          stem = take (length b - length ext_rev - 1) b
      in if CHR ''.'' \<in> set b \<and> (\<exists>c \<in> set stem. c \<noteq> CHR ''.'')
         then (take d p @ stem, CHR ''.'' # rev ext_rev)
         else (p, []))"

definition path_join :: "string \<Rightarrow> string \<Rightarrow> string" where
  "path_join a b =
     (if b \<noteq> [] \<and> hd b = CHR ''/'' then b
      else if a = [] \<or> last a = CHR ''/'' then a @ b
      else a @ ''/'' @ b)"

definition output_filename_of :: "string \<Rightarrow> nat \<Rightarrow> string" where
  "output_filename_of input_file n =
     fst (splitext (basename input_file)) @ ''_clip_'' @ pad3 n @ snd (splitext input_file)"

subsection \<open>Rounding to four decimals (\<open>round(current_pos, 4)\<close>)\<close>

text \<open>
  On a double, \<open>round(x, 4)\<close> is the multiple of \<open>10\<^sup>-\<^sup>4\<close> nearest to the exact
  value of the double, a tie going to the even multiple (and then the double nearest to
  that multiple). \<open>round4\<close> is this rounding on the exact rational that stands for the
  cut point in the model.

  The two differ where the rational is a decimal tie: 1.00115 is half way between 1.0011
  and 1.0012 and \<open>round4\<close> gives 1.0012, whereas the double written 1.00115 lies just
  below the tie and the source writes 1.0011. Likewise the sum of two doubles can be
  3.3000000000000003 where the rationals add up to 3.3. Either way the value written is
  one of the two multiples of \<open>10\<^sup>-\<^sup>4\<close> around the cut point, so what is stated
  of the manifest below is a bound of \<open>10\<^sup>-\<^sup>4\<close>, which both neighbours meet; the
  sharper facts of the model (half that bound, and which neighbour is taken) are kept to
  the lemmas about \<open>round4\<close> itself.
\<close>

definition round_half_even :: "rat \<Rightarrow> int" where
  "round_half_even y =
     (let f = \<lfloor>y\<rfloor>; d = y - of_int f
      in if d < 1 / 2 then f
         else if d > 1 / 2 then f + 1
         else if even f then f else f + 1)"

definition round4 :: "rat \<Rightarrow> rat" where
  "round4 x = of_int (round_half_even (x * 10000)) / 10000"

subsection \<open>The planning and extraction loop (lines 87 to 137)\<close>

text \<open>
  \<open>run\<close> is the outside world: the exit status of the stream copy for a command.
  \<open>check=True\<close> raises \<open>CalledProcessError\<close> on a non-zero status; nothing catches
  it. The trace keeps the failing call as well, since the call was made.
\<close>

function split_loop ::
  "(copy_command \<Rightarrow> int) \<Rightarrow> string \<Rightarrow> rat \<Rightarrow> string \<Rightarrow> silence list \<Rightarrow> rat \<Rightarrow>
   split_state \<Rightarrow> py_error option \<times> split_state"
where
  "split_loop run input_file target_duration_sec output_dir silences total_duration st =
     (if current_pos st < total_duration then
        (let split_point = split_point_of target_duration_sec silences total_duration (current_pos st)
         in if split_point - current_pos st < 1 then (None, st)
            else
              (let output_filename = output_filename_of input_file (clip_num st);
                   output_filepath = path_join output_dir output_filename;
                   command = \<lparr>cmd_clip_num = clip_num st, cmd_input = input_file,
                              cmd_ss = current_pos st, cmd_to = split_point,
                              cmd_output = output_filepath\<rparr>
               in if run command \<noteq> 0
                  then (Some CalledProcessError, st\<lparr>commands := commands st @ [command]\<rparr>)
                  else split_loop run input_file target_duration_sec output_dir silences total_duration
                         (st\<lparr>clip_manifest := clip_manifest st @
                               [\<lparr>filename = output_filename,
                                 source_start_time = round4 (current_pos st)\<rparr>],
                             current_pos := split_point,
                             clip_num := clip_num st + 1,
                             commands := commands st @ [command]\<rparr>)))
      else (None, st))"
  by pat_completeness auto

termination
proof (relation "measure (\<lambda>(run, input_file, target, output_dir, silences, total, st).
                    nat \<lceil>total - current_pos st\<rceil>)", goal_cases)
  case 1
  show ?case by simp
next
  case (2 run input_file target output_dir silences total st x xa xb xc)
  then have "x - current_pos st \<ge> 1" "current_pos st < total"
    by simp_all
  then have "\<lceil>total - x\<rceil> \<le> \<lceil>total - current_pos st\<rceil> - 1" "\<lceil>total - current_pos st\<rceil> \<ge> 1"
    by linarith+
  then show ?case
    by simp
qed

declare split_loop.simps [simp del]

subsection \<open>\<open>split_audio\<close>\<close>

text \<open>
  The result of \<open>split_audio\<close>: the exception that ended it, if any, the stream-copy
  calls it made, and the list written to the manifest file, if the file was written.
  \<open>can_write\<close> is the outside world again: whether \<open>open(manifest_filepath, 'w')\<close>
  succeeds. The manifest is the list passed to \<open>json.dump\<close>; its text is not modelled.
\<close>

record split_result =
  error :: "py_error option"
  copies :: "copy_command list"
  manifest_file :: "clip_info list option"

definition initial_state :: split_state where
  "initial_state = \<lparr>clip_manifest = [], current_pos = 0, clip_num = 1, commands = []\<rparr>"

definition split_audio ::
  "(copy_command \<Rightarrow> int) \<Rightarrow> bool \<Rightarrow> string \<Rightarrow> rat \<Rightarrow> string \<Rightarrow> silence list \<Rightarrow> rat \<Rightarrow> split_result"
where
  "split_audio run can_write input_file target_duration_sec output_dir silences total_duration =
     (case split_loop run input_file target_duration_sec output_dir silences total_duration
             initial_state of
        (Some e, st) \<Rightarrow> \<lparr>error = Some e, copies = commands st, manifest_file = None\<rparr>
      | (None, st) \<Rightarrow>
          if can_write
          then \<lparr>error = None, copies = commands st, manifest_file = Some (clip_manifest st)\<rparr>
          else \<lparr>error = Some OSError, copies = commands st, manifest_file = None\<rparr>)"

subsection \<open>External processes (lines 21 to 48)\<close>

text \<open>What \<open>subprocess.run(..., capture_output=True, text=True)\<close> returns.\<close>

record proc_result =
  returncode :: int
  stdout :: string
  stderr :: string

definition run_command :: "proc_result \<Rightarrow> py_error + string" where
  "run_command result =
     (if returncode result \<noteq> 0 then
        (if sublist ''Error'' (stderr result) \<or> sublist ''failed'' (stderr result)
         then Inl (SystemExit 1)
         else Inr (stderr result))
      else Inr (stderr result))"

subsection \<open>\<open>str.strip\<close> and \<open>float\<close>\<close>

text \<open>
  Characters are bytes here; the white space of \<open>str.strip\<close> and the digits of
  \<open>\d\<close> are the ASCII ones. \<open>float\<close> is modelled on plain decimal numerals, an
  optional sign, digits and an optional fraction, and \<open>py_float\<close> gives the exact value
  of the numeral, where Python gives the double nearest to it. On every other string
  \<open>py_float\<close> is \<open>None\<close>, the \<open>ValueError\<close> of the source; Python also reads
  exponent forms (\<open>5e-2\<close>), underscores between digits (\<open>1_0\<close>), \<open>inf\<close>,
  \<open>infinity\<close> and \<open>nan\<close>, which are outside the model. Every group that the
  scan of the silence markers captures is a plain numeral (\<open>findall_float\<close> below), and
  the statements about the script either assume that \<open>py_float\<close> reads the text at
  hand or conclude the same exit whether it does or not.
\<close>

definition is_space :: "char \<Rightarrow> bool" where
  "is_space c = ((of_char c :: nat) \<in> {9, 10, 11, 12, 13, 28, 29, 30, 31, 32})"

definition strip :: "string \<Rightarrow> string" where
  "strip s = rev (dropWhile is_space (rev (dropWhile is_space s)))"

definition is_digit :: "char \<Rightarrow> bool" where
  "is_digit c = (48 \<le> (of_char c :: nat) \<and> (of_char c :: nat) \<le> 57)"

definition digit_value :: "char \<Rightarrow> nat" where
  "digit_value c = of_char c - 48"

definition digits_value :: "string \<Rightarrow> nat" where
  "digits_value ds = foldl (\<lambda>a c. 10 * a + digit_value c) 0 ds"

definition unsigned_float :: "string \<Rightarrow> rat option" where
  "unsigned_float s =
     (let ip = takeWhile is_digit s; r = dropWhile is_digit s
      in case r of
           [] \<Rightarrow> if ip = [] then None else Some (of_nat (digits_value ip))
         | c # fp \<Rightarrow>
             if c = CHR ''.'' \<and> list_all is_digit fp \<and> (ip \<noteq> [] \<or> fp \<noteq> [])
             then Some (of_nat (digits_value ip) + of_nat (digits_value fp) / 10 ^ length fp)
             else None)"

definition py_float :: "string \<Rightarrow> rat option" where
  "py_float s =
     (case strip s of
        [] \<Rightarrow> None
      | c # r \<Rightarrow>
          if c = CHR ''-'' then map_option uminus (unsigned_float r)
          else if c = CHR ''+'' then unsigned_float r
          else unsigned_float (c # r))"

text \<open>
  \<open>subprocess.run(command, capture_output=True, text=True, check=True)\<close> raises
  \<open>CalledProcessError\<close> on a non-zero status; the \<open>ValueError\<close> of \<open>float\<close> is
  caught and becomes \<open>sys.exit(1)\<close>.
\<close>

definition get_total_duration :: "proc_result \<Rightarrow> py_error + rat" where
  "get_total_duration result =
     (if returncode result \<noteq> 0 then Inl CalledProcessError
      else case py_float (strip (stdout result)) of
             Some d \<Rightarrow> Inr d
           | None \<Rightarrow> Inl (SystemExit 1))"

subsection \<open>The silence markers (lines 61 to 75)\<close>

text \<open>
  One attempt to match \<open>\d+\.?\d*\<close> at the start of a string: the captured group and
  the text after the match. All three parts are greedy, and nothing after them can fail,
  so the match is the longest one.
\<close>

definition match_number :: "string \<Rightarrow> (string \<times> string) option" where
  "match_number s =
     (let ds = takeWhile is_digit s; r = dropWhile is_digit s
      in if ds = [] then None
         else case r of
                [] \<Rightarrow> Some (ds, r)
              | c # r' \<Rightarrow>
                  if c = CHR ''.''
                  then Some (ds @ [c] @ takeWhile is_digit r', dropWhile is_digit r')
                  else Some (ds, r))"

definition match_at :: "string \<Rightarrow> string \<Rightarrow> (string \<times> string) option" where
  "match_at lit s = (if prefix lit s then match_number (drop (length lit) s) else None)"

lemma match_number_shorter: "match_number s = Some (g, rest) \<Longrightarrow> length rest < length s"
proof -
  assume m: "match_number s = Some (g, rest)"
  have d: "length (dropWhile is_digit xs) \<le> length xs" for xs
    by (simp add: length_dropWhile_le)
  from m have ne: "takeWhile is_digit s \<noteq> []"
    by (auto simp: match_number_def Let_def split: if_splits)
  have "length (takeWhile is_digit s) + length (dropWhile is_digit s) = length s"
    by (metis length_append takeWhile_dropWhile_id)
  with ne have lt: "length (dropWhile is_digit s) < length s"
    by (cases "takeWhile is_digit s") simp_all
  show ?thesis
  proof (cases "dropWhile is_digit s")
    case Nil
    with m ne have "rest = []"
      by (simp add: match_number_def Let_def del: dropWhile_eq_Nil_conv)
    with lt show ?thesis by (cases s) auto
  next
    case (Cons c r')
    with m ne have "rest = c # r' \<or> rest = dropWhile is_digit r'"
      by (auto simp: match_number_def Let_def split: if_splits)
    moreover have "length (dropWhile is_digit r') < length s"
      using d [of r'] lt Cons by simp
    moreover have "length (c # r') < length s"
      using lt Cons by simp
    ultimately show ?thesis by auto
  qed
qed

lemma match_at_shorter: "match_at lit s = Some (g, rest) \<Longrightarrow> length rest < length s"
  using match_number_shorter [of "drop (length lit) s" g rest]
  by (auto simp: match_at_def split: if_splits)

text \<open>
  \<open>re.findall(lit + r"(\d+\.?\d*)", s)\<close>: the groups of the matches found from left
  to right, each search starting where the last match ended.
\<close>

function findall :: "string \<Rightarrow> string \<Rightarrow> string list" where
  "findall lit s =
     (case match_at lit s of
        Some (g, rest) \<Rightarrow> g # findall lit rest
      | None \<Rightarrow> (case s of [] \<Rightarrow> [] | c # t \<Rightarrow> findall lit t))"
  by pat_completeness auto

termination
  by (relation "measure (\<lambda>(lit, s). length s)") (auto dest: match_at_shorter)

declare findall.simps [simp del]

fun float_pairs :: "(string \<times> string) list \<Rightarrow> py_error + silence list" where
  "float_pairs [] = Inr []"
| "float_pairs ((s_start, s_end) # rest) =
     (case (py_float s_start, py_float s_end) of
        (Some a, Some b) \<Rightarrow>
          (case float_pairs rest of
             Inr silences \<Rightarrow> Inr ((a, b) # silences)
           | Inl e \<Rightarrow> Inl e)
      | _ \<Rightarrow> Inl ValueError)"

definition find_silences :: "proc_result \<Rightarrow> py_error + silence list" where
  "find_silences result =
     (case run_command result of
        Inl e \<Rightarrow> Inl e
      | Inr output \<Rightarrow>
          (let start_times = findall ''silence_start: '' output;
               end_times = findall ''silence_end: '' output
           in if start_times = [] \<or> end_times = [] then Inl (SystemExit 1)
              else float_pairs (zip start_times end_times)))"

subsection \<open>The script (lines 146 to 159)\<close>

text \<open>
  The outside world of one run: what the duration probe and the silence-detection pass
  return, the exit status of each stream copy, and whether the manifest can be written.
\<close>

record world =
  probe :: proc_result
  detect :: proc_result
  copy_status :: "copy_command \<Rightarrow> int"
  manifest_writable :: bool

record run_result =
  exit_status :: int
  clips :: "copy_command list"
  manifest :: "clip_info list option"

text \<open>\<open>sys.exit(n)\<close> ends the process with status \<open>n\<close>, an uncaught exception with 1.\<close>

fun status_of :: "py_error \<Rightarrow> int" where
  "status_of (SystemExit n) = n"
| "status_of e = 1"

definition aborted :: "py_error \<Rightarrow> run_result" where
  "aborted e = \<lparr>exit_status = status_of e, clips = [], manifest = None\<rparr>"

definition main :: "world \<Rightarrow> string list \<Rightarrow> run_result" where
  "main w argv =
     (if length argv \<noteq> 4 then aborted (SystemExit 1)
      else case py_float (argv ! 2) of
        None \<Rightarrow> aborted ValueError
      | Some target_minutes \<Rightarrow>
          (let target_seconds = target_minutes * 60
           in case get_total_duration (probe w) of
                Inl e \<Rightarrow> aborted e
              | Inr total_duration_secs \<Rightarrow>
                  (case find_silences (detect w) of
                     Inl e \<Rightarrow> aborted e
                   | Inr detected_silences \<Rightarrow>
                       (let r = split_audio (copy_status w) (manifest_writable w) (argv ! 1)
                                  target_seconds (argv ! 3) detected_silences total_duration_secs
                        in \<lparr>exit_status = (case error r of None \<Rightarrow> 0 | Some e \<Rightarrow> status_of e),
                            clips = copies r,
                            manifest = manifest_file r\<rparr>))))"

section \<open>Vocabulary of the proofs\<close>

text \<open>
  An interval is eligible when it starts after the cursor; its distance is the one the
  scan compares. \<open>first_min\<close> says that an interval of the list is eligible, strictly
  nearer to the target than every eligible interval before it, and at least as near as
  every eligible interval after it.
\<close>

definition eligible :: "rat \<Rightarrow> silence \<Rightarrow> bool" where
  "eligible cur s = (fst s > cur)"

definition dist_to :: "rat \<Rightarrow> silence \<Rightarrow> rat" where
  "dist_to t s = \<bar>mid_point s - t\<bar>"

definition first_min :: "rat \<Rightarrow> rat \<Rightarrow> silence list \<Rightarrow> silence \<Rightarrow> bool" where
  "first_min cur t xs b =
     (\<exists>pre post. xs = pre @ b # post \<and> eligible cur b \<and>
        (\<forall>s \<in> set pre. eligible cur s \<longrightarrow> dist_to t b < dist_to t s) \<and>
        (\<forall>s \<in> set post. eligible cur s \<longrightarrow> dist_to t b \<le> dist_to t s))"

text \<open>
  One iteration of the loop, cut into its parts: whether it reaches the stream copy, the
  command it runs, and the state it leaves when the copy succeeds.
\<close>

definition continues :: "rat \<Rightarrow> silence list \<Rightarrow> rat \<Rightarrow> split_state \<Rightarrow> bool" where
  "continues target silences tot st =
     (current_pos st < tot \<and>
      \<not> split_point_of target silences tot (current_pos st) - current_pos st < 1)"

definition next_command ::
  "string \<Rightarrow> rat \<Rightarrow> string \<Rightarrow> silence list \<Rightarrow> rat \<Rightarrow> split_state \<Rightarrow> copy_command" where
  "next_command inp target out silences tot st =
     \<lparr>cmd_clip_num = clip_num st, cmd_input = inp, cmd_ss = current_pos st,
      cmd_to = split_point_of target silences tot (current_pos st),
      cmd_output = path_join out (output_filename_of inp (clip_num st))\<rparr>"

definition advance ::
  "string \<Rightarrow> rat \<Rightarrow> string \<Rightarrow> silence list \<Rightarrow> rat \<Rightarrow> split_state \<Rightarrow> split_state" where
  "advance inp target out silences tot st =
     st\<lparr>clip_manifest := clip_manifest st @
           [\<lparr>filename = output_filename_of inp (clip_num st),
             source_start_time = round4 (current_pos st)\<rparr>],
        current_pos := split_point_of target silences tot (current_pos st),
        clip_num := clip_num st + 1,
        commands := commands st @ [next_command inp target out silences tot st]\<rparr>"

text \<open>
  \<open>clip_plan\<close> is what the planner decided for a call: the sequence number, where the
  clip starts and where it ends. \<open>planned_end\<close> is where the calls made so far end.

  The invariant of the loop: the calls made so far start at 0, each starts where the one
  before ended and is at least a second long, they are numbered from 1, the cursor is
  where the last one ended, and the manifest holds the rounded start of each.
\<close>

text \<open>The text that \<open>run_command\<close> looks for in the diagnostic stream.\<close>

definition error_text :: "string \<Rightarrow> bool" where
  "error_text s = (sublist ''Error'' s \<or> sublist ''failed'' s)"

definition clip_plan :: "copy_command \<Rightarrow> nat \<times> rat \<times> rat" where
  "clip_plan c = (cmd_clip_num c, cmd_ss c, cmd_to c)"

definition planned_end :: "copy_command list \<Rightarrow> rat" where
  "planned_end cs = (if cs = [] then 0 else cmd_to (last cs))"

definition chained :: "copy_command list \<Rightarrow> bool" where
  "chained cs =
     ((cs \<noteq> [] \<longrightarrow> cmd_ss (hd cs) = 0) \<and>
      (\<forall>i. Suc i < length cs \<longrightarrow> cmd_to (cs ! i) = cmd_ss (cs ! Suc i)) \<and>
      (\<forall>c \<in> set cs. 1 \<le> cmd_to c - cmd_ss c) \<and>
      (\<forall>i < length cs. cmd_clip_num (cs ! i) = Suc i))"

definition loop_inv :: "split_state \<Rightarrow> bool" where
  "loop_inv st =
     (chained (commands st) \<and>
      current_pos st = planned_end (commands st) \<and>
      clip_num st = Suc (length (commands st)) \<and>
      length (clip_manifest st) = length (commands st) \<and>
      (\<forall>i < length (commands st).
         source_start_time (clip_manifest st ! i) = round4 (cmd_ss (commands st ! i))))"

section \<open>The scan for the nearest silence\<close>

lemma scan_silences_step:
  "scan_silences cur t (x # rest) (best, md) =
     (if eligible cur x \<and> lt_inf (dist_to t x) md
      then scan_silences cur t rest (Some x, Some (dist_to t x))
      else scan_silences cur t rest (best, md))"
  by (cases x) (simp add: eligible_def dist_to_def mid_point_def Let_def)

lemma first_min_here:
  "eligible cur x \<Longrightarrow> \<forall>s \<in> set rest. eligible cur s \<longrightarrow> dist_to t x \<le> dist_to t s \<Longrightarrow>
   first_min cur t (x # rest) x"
  unfolding first_min_def by (rule exI [of _ "[]"]) simp

lemma first_min_later:
  assumes "first_min cur t rest r" and "eligible cur x \<longrightarrow> dist_to t r < dist_to t x"
  shows "first_min cur t (x # rest) r"
proof -
  from assms(1) obtain pre post where *: "rest = pre @ r # post" "eligible cur r"
    "\<forall>s \<in> set pre. eligible cur s \<longrightarrow> dist_to t r < dist_to t s"
    "\<forall>s \<in> set post. eligible cur s \<longrightarrow> dist_to t r \<le> dist_to t s"
    unfolding first_min_def by blast
  have "x # rest = (x # pre) @ r # post" using * by simp
  moreover have "\<forall>s \<in> set (x # pre). eligible cur s \<longrightarrow> dist_to t r < dist_to t s"
    using * assms(2) by simp
  ultimately show ?thesis
    unfolding first_min_def using * by blast
qed

lemma scan_silences_some:
  "\<exists>r. scan_silences cur t xs (Some b, Some (dist_to t b)) = (Some r, Some (dist_to t r)) \<and>
       ((r = b \<and> (\<forall>s \<in> set xs. eligible cur s \<longrightarrow> dist_to t b \<le> dist_to t s)) \<or>
        (dist_to t r < dist_to t b \<and> first_min cur t xs r))"
proof (induction xs arbitrary: b)
  case Nil
  then show ?case by simp
next
  case (Cons x xs)
  show ?case
  proof (cases "eligible cur x \<and> dist_to t x < dist_to t b")
    case True
    from Cons.IH [of x] obtain r where
      r: "scan_silences cur t xs (Some x, Some (dist_to t x)) = (Some r, Some (dist_to t r))"
         "(r = x \<and> (\<forall>s \<in> set xs. eligible cur s \<longrightarrow> dist_to t x \<le> dist_to t s)) \<or>
          (dist_to t r < dist_to t x \<and> first_min cur t xs r)"
      by blast
    have "scan_silences cur t (x # xs) (Some b, Some (dist_to t b)) = (Some r, Some (dist_to t r))"
      using True r(1) by (simp add: scan_silences_step lt_inf_def)
    moreover have "dist_to t r < dist_to t b \<and> first_min cur t (x # xs) r"
      using r(2) True first_min_here [of cur x xs t] first_min_later [of cur t xs r x]
      by auto
    ultimately show ?thesis by blast
  next
    case False
    from Cons.IH [of b] obtain r where
      r: "scan_silences cur t xs (Some b, Some (dist_to t b)) = (Some r, Some (dist_to t r))"
         "(r = b \<and> (\<forall>s \<in> set xs. eligible cur s \<longrightarrow> dist_to t b \<le> dist_to t s)) \<or>
          (dist_to t r < dist_to t b \<and> first_min cur t xs r)"
      by blast
    have "scan_silences cur t (x # xs) (Some b, Some (dist_to t b)) = (Some r, Some (dist_to t r))"
      using False r(1) by (auto simp: scan_silences_step lt_inf_def)
    moreover have "(r = b \<and> (\<forall>s \<in> set (x # xs). eligible cur s \<longrightarrow> dist_to t b \<le> dist_to t s)) \<or>
          (dist_to t r < dist_to t b \<and> first_min cur t (x # xs) r)"
      using r(2) False first_min_later [of cur t xs r x]
      by auto
    ultimately show ?thesis by blast
  qed
qed

lemma scan_silences_start:
  assumes "\<exists>s \<in> set xs. eligible cur s"
  shows "\<exists>r. scan_silences cur t xs (None, None) = (Some r, Some (dist_to t r)) \<and> first_min cur t xs r"
  using assms
proof (induction xs)
  case Nil
  then show ?case by simp
next
  case (Cons x xs)
  show ?case
  proof (cases "eligible cur x")
    case True
    from scan_silences_some [of cur t xs x] obtain r where
      r: "scan_silences cur t xs (Some x, Some (dist_to t x)) = (Some r, Some (dist_to t r))"
         "(r = x \<and> (\<forall>s \<in> set xs. eligible cur s \<longrightarrow> dist_to t x \<le> dist_to t s)) \<or>
          (dist_to t r < dist_to t x \<and> first_min cur t xs r)"
      by blast
    have "scan_silences cur t (x # xs) (None, None) = (Some r, Some (dist_to t r))"
      using True r(1) by (simp add: scan_silences_step lt_inf_def)
    moreover have "first_min cur t (x # xs) r"
      using r(2) True first_min_here [of cur x xs t] first_min_later [of cur t xs r x]
      by auto
    ultimately show ?thesis by blast
  next
    case False
    with Cons.prems have "\<exists>s \<in> set xs. eligible cur s" by simp
    from Cons.IH [OF this] obtain r where
      r: "scan_silences cur t xs (None, None) = (Some r, Some (dist_to t r))" "first_min cur t xs r"
      by blast
    have "scan_silences cur t (x # xs) (None, None) = (Some r, Some (dist_to t r))"
      using False r(1) by (simp add: scan_silences_step)
    moreover have "first_min cur t (x # xs) r"
      using r(2) False first_min_later [of cur t xs r x] by simp
    ultimately show ?thesis by blast
  qed
qed

lemma scan_silences_no_eligible:
  "\<forall>s \<in> set xs. \<not> eligible cur s \<Longrightarrow> scan_silences cur t xs (best, md) = (best, md)"
  by (induction xs) (simp_all add: scan_silences_step)

section \<open>The loop\<close>

lemma split_loop_stop:
  "\<not> continues target silences tot st \<Longrightarrow>
   split_loop run inp target out silences tot st = (None, st)"
  by (subst split_loop.simps) (simp add: continues_def Let_def)

lemma split_loop_fail:
  "continues target silences tot st \<Longrightarrow>
   run (next_command inp target out silences tot st) \<noteq> 0 \<Longrightarrow>
   split_loop run inp target out silences tot st =
     (Some CalledProcessError,
      st\<lparr>commands := commands st @ [next_command inp target out silences tot st]\<rparr>)"
  by (subst split_loop.simps) (simp add: continues_def Let_def next_command_def)

lemma split_loop_step:
  "continues target silences tot st \<Longrightarrow>
   run (next_command inp target out silences tot st) = 0 \<Longrightarrow>
   split_loop run inp target out silences tot st =
     split_loop run inp target out silences tot (advance inp target out silences tot st)"
  by (subst split_loop.simps) (simp add: continues_def Let_def next_command_def advance_def)

lemma advance_measure:
  assumes "continues target silences tot st"
  shows "nat \<lceil>tot - current_pos (advance inp target out silences tot st)\<rceil> <
         nat \<lceil>tot - current_pos st\<rceil>"
proof -
  let ?x = "split_point_of target silences tot (current_pos st)"
  from assms have "?x - current_pos st \<ge> 1" "current_pos st < tot"
    by (simp_all add: continues_def)
  then have "\<lceil>tot - ?x\<rceil> \<le> \<lceil>tot - current_pos st\<rceil> - 1" "\<lceil>tot - current_pos st\<rceil> \<ge> 1"
    by linarith+
  then show ?thesis
    by (simp add: advance_def)
qed

lemma split_loop_state_induct:
  assumes "\<And>st. (continues target silences tot st \<Longrightarrow>
                  P (advance inp target out silences tot st)) \<Longrightarrow> P st"
  shows "P st"
proof (induction "nat \<lceil>tot - current_pos st\<rceil>" arbitrary: st rule: less_induct)
  case less
  show ?case
  proof (rule assms)
    assume "continues target silences tot st"
    then show "P (advance inp target out silences tot st)"
      by (intro less advance_measure)
  qed
qed

lemma planned_end_snoc [simp]: "planned_end (cs @ [c]) = cmd_to c"
  by (simp add: planned_end_def)

lemma chained_Nil [simp]: "chained []"
  by (simp add: chained_def)

lemma chained_snoc:
  assumes "chained cs" and "cmd_ss c = planned_end cs" and "1 \<le> cmd_to c - cmd_ss c"
    and "cmd_clip_num c = Suc (length cs)"
  shows "chained (cs @ [c])"
proof -
  have hd: "cmd_ss (hd (cs @ [c])) = 0"
    using assms(1,2) by (cases cs) (simp_all add: chained_def planned_end_def)
  have adj: "cmd_to ((cs @ [c]) ! i) = cmd_ss ((cs @ [c]) ! Suc i)" if "Suc i < length (cs @ [c])" for i
  proof (cases "Suc i < length cs")
    case True
    with assms(1) show ?thesis by (simp add: chained_def nth_append)
  next
    case False
    with that have i: "Suc i = length cs" by simp
    then have ne: "cs \<noteq> []" by auto
    then have "last cs = cs ! (length cs - 1)" by (rule last_conv_nth)
    also have "length cs - 1 = i" using i by simp
    finally have "last cs = cs ! i" .
    with i ne assms(2) show ?thesis
      by (simp add: nth_append planned_end_def)
  qed
  have len: "\<forall>x \<in> set (cs @ [c]). 1 \<le> cmd_to x - cmd_ss x"
    using assms(1,3) by (auto simp: chained_def)
  have num: "cmd_clip_num ((cs @ [c]) ! i) = Suc i" if "i < length (cs @ [c])" for i
    using that assms(1,4) by (cases "i < length cs") (auto simp: chained_def nth_append less_Suc_eq)
  show ?thesis
    unfolding chained_def using hd adj len num by blast
qed

lemma loop_inv_initial: "loop_inv initial_state"
  by (simp add: loop_inv_def initial_state_def planned_end_def)

lemma chained_next:
  assumes "loop_inv st" and "continues target silences tot st"
  shows "chained (commands st @ [next_command inp target out silences tot st])"
  using assms
  by (intro chained_snoc) (simp_all add: loop_inv_def continues_def next_command_def)

lemma loop_inv_advance:
  assumes "loop_inv st" and "continues target silences tot st"
  shows "loop_inv (advance inp target out silences tot st)"
proof -
  let ?c = "next_command inp target out silences tot st"
  let ?st = "advance inp target out silences tot st"
  have c: "commands ?st = commands st @ [?c]" by (simp add: advance_def)
  have "chained (commands ?st)"
    unfolding c using assms by (rule chained_next)
  moreover have "current_pos ?st = planned_end (commands ?st)"
    by (simp add: advance_def next_command_def)
  moreover have "clip_num ?st = Suc (length (commands ?st))"
    using assms(1) by (simp add: advance_def loop_inv_def)
  moreover have "length (clip_manifest ?st) = length (commands ?st)"
    using assms(1) by (simp add: advance_def loop_inv_def)
  moreover have "source_start_time (clip_manifest ?st ! i) = round4 (cmd_ss (commands ?st ! i))"
    if "i < length (commands ?st)" for i
    using that assms(1)
    by (cases "i < length (commands st)")
       (auto simp: advance_def loop_inv_def nth_append next_command_def less_Suc_eq)
  ultimately show ?thesis
    unfolding loop_inv_def by blast
qed

section \<open>The split point of a step\<close>




section \<open>What the loop returns\<close>

lemma split_loop_chained:
  assumes "loop_inv st"
  shows "chained (commands (snd (split_loop run inp target out silences tot st)))"
  using assms
proof (induction st rule: split_loop_state_induct [where target = target and silences = silences
      and tot = tot and inp = inp and out = out])
  case (1 st)
  show ?case
  proof (cases "continues target silences tot st")
    case False
    with "1.prems" show ?thesis
      by (simp add: split_loop_stop loop_inv_def)
  next
    case True
    show ?thesis
    proof (cases "run (next_command inp target out silences tot st) = 0")
      case True
      with \<open>continues target silences tot st\<close> "1.IH" "1.prems" show ?thesis
        by (simp add: split_loop_step loop_inv_advance)
    next
      case False
      with \<open>continues target silences tot st\<close> "1.prems" show ?thesis
        by (simp add: split_loop_fail chained_next)
    qed
  qed
qed

lemma split_loop_complete:
  assumes "loop_inv st" and "fst (split_loop run inp target out silences tot st) = None"
  shows "loop_inv (snd (split_loop run inp target out silences tot st)) \<and>
         \<not> continues target silences tot (snd (split_loop run inp target out silences tot st))"
  using assms
proof (induction st rule: split_loop_state_induct [where target = target and silences = silences
      and tot = tot and inp = inp and out = out])
  case (1 st)
  show ?case
  proof (cases "continues target silences tot st")
    case False
    with "1.prems" show ?thesis
      by (simp add: split_loop_stop)
  next
    case True
    show ?thesis
    proof (cases "run (next_command inp target out silences tot st) = 0")
      case True
      with \<open>continues target silences tot st\<close> "1.IH" "1.prems" show ?thesis
        by (simp add: split_loop_step loop_inv_advance)
    next
      case False
      with \<open>continues target silences tot st\<close> "1.prems" show ?thesis
        by (simp add: split_loop_fail)
    qed
  qed
qed

lemma split_loop_errors:
  assumes "\<forall>c \<in> set (commands st). run c = 0"
  shows "(fst (split_loop run inp target out silences tot st) = None \<and>
          (\<forall>c \<in> set (commands (snd (split_loop run inp target out silences tot st))). run c = 0)) \<or>
         (fst (split_loop run inp target out silences tot st) = Some CalledProcessError \<and>
          commands (snd (split_loop run inp target out silences tot st)) \<noteq> [] \<and>
          run (last (commands (snd (split_loop run inp target out silences tot st)))) \<noteq> 0 \<and>
          (\<forall>c \<in> set (butlast (commands (snd (split_loop run inp target out silences tot st)))).
             run c = 0))"
  using assms
proof (induction st rule: split_loop_state_induct [where target = target and silences = silences
      and tot = tot and inp = inp and out = out])
  case (1 st)
  show ?case
  proof (cases "continues target silences tot st")
    case False
    with "1.prems" show ?thesis
      by (simp add: split_loop_stop)
  next
    case True
    show ?thesis
    proof (cases "run (next_command inp target out silences tot st) = 0")
      case True
      with "1.prems" have "\<forall>c \<in> set (commands (advance inp target out silences tot st)). run c = 0"
        by (simp add: advance_def)
      with True \<open>continues target silences tot st\<close> "1.IH" show ?thesis
        by (simp add: split_loop_step)
    next
      case False
      with \<open>continues target silences tot st\<close> "1.prems" show ?thesis
        by (simp add: split_loop_fail)
    qed
  qed
qed

lemma split_loop_prefix:
  "prefix (commands st) (commands (snd (split_loop run inp target out silences tot st)))"
proof (induction st rule: split_loop_state_induct [where target = target and silences = silences
      and tot = tot and inp = inp and out = out])
  case (1 st)
  show ?case
  proof (cases "continues target silences tot st")
    case False
    then show ?thesis
      by (simp add: split_loop_stop)
  next
    case True
    show ?thesis
    proof (cases "run (next_command inp target out silences tot st) = 0")
      case True
      have "prefix (commands st) (commands (advance inp target out silences tot st))"
        by (simp add: advance_def)
      with True \<open>continues target silences tot st\<close> "1.IH" show ?thesis
        by (simp add: split_loop_step)
    next
      case False
      with \<open>continues target silences tot st\<close> show ?thesis
        by (simp add: split_loop_fail)
    qed
  qed
qed

lemma split_loop_length:
  "length (commands (snd (split_loop run inp target out silences tot st))) \<le>
   length (commands st) + nat \<lceil>tot - current_pos st\<rceil>"
proof (induction st rule: split_loop_state_induct [where target = target and silences = silences
      and tot = tot and inp = inp and out = out])
  case (1 st)
  show ?case
  proof (cases "continues target silences tot st")
    case False
    then show ?thesis
      by (simp add: split_loop_stop)
  next
    case True
    let ?st = "advance inp target out silences tot st"
    have m: "Suc (nat \<lceil>tot - current_pos ?st\<rceil>) \<le> nat \<lceil>tot - current_pos st\<rceil>"
      using advance_measure [OF True, of inp out] by (rule Suc_leI)
    show ?thesis
    proof (cases "run (next_command inp target out silences tot st) = 0")
      case True
      have "split_loop run inp target out silences tot st =
            split_loop run inp target out silences tot ?st"
        using \<open>continues target silences tot st\<close> True by (rule split_loop_step)
      moreover have "length (commands (snd (split_loop run inp target out silences tot ?st))) \<le>
            length (commands ?st) + nat \<lceil>tot - current_pos ?st\<rceil>"
        using \<open>continues target silences tot st\<close> by (rule "1.IH")
      moreover have "length (commands ?st) = Suc (length (commands st))"
        by (simp add: advance_def)
      ultimately show ?thesis
        using m by simp
    next
      case False
      have "split_loop run inp target out silences tot st =
            (Some CalledProcessError,
             st\<lparr>commands := commands st @ [next_command inp target out silences tot st]\<rparr>)"
        using \<open>continues target silences tot st\<close> False by (rule split_loop_fail)
      then have "length (commands (snd (split_loop run inp target out silences tot st))) =
            Suc (length (commands st))"
        by simp
      then show ?thesis
        using m by linarith
    qed
  qed
qed

section \<open>\<open>split_audio\<close> in terms of the loop\<close>

lemma copies_split_audio:
  "copies (split_audio run w inp target out silences tot) =
   commands (snd (split_loop run inp target out silences tot initial_state))"
  by (simp add: split_audio_def split: prod.splits option.splits)

lemma error_split_audio:
  "error (split_audio run w inp target out silences tot) \<noteq> Some CalledProcessError \<longleftrightarrow>
   fst (split_loop run inp target out silences tot initial_state) = None"
  using split_loop_errors [of initial_state run inp target out silences tot]
  by (auto simp: split_audio_def initial_state_def split: prod.splits option.splits)


lemma chained_split_audio: "chained (copies (split_audio run w inp target out silences tot))"
  unfolding copies_split_audio by (rule split_loop_chained) (rule loop_inv_initial)

section \<open>Segments shorter than a second\<close>

text \<open>
  C3. When the split point computed at the cursor lies less than one second past it, the
  loop returns at once with the state as it is: no further stream copy is run and no
  manifest entry is added, so the rest of the file is left out. Every stream copy that
  \<open>split_audio\<close> runs is at least one second long.
\<close>

theorem short_segment_stops_planning:
  "(current_pos st < tot \<and>
    split_point_of target silences tot (current_pos st) - current_pos st < 1 \<longrightarrow>
      split_loop run inp target out silences tot st = (None, st)) \<and>
   (\<forall>c \<in> set (copies (split_audio run w inp target out silences tot)).
      1 \<le> cmd_to c - cmd_ss c)"
proof
  show "current_pos st < tot \<and>
    split_point_of target silences tot (current_pos st) - current_pos st < 1 \<longrightarrow>
      split_loop run inp target out silences tot st = (None, st)"
    by (simp add: split_loop_stop continues_def)
  show "\<forall>c \<in> set (copies (split_audio run w inp target out silences tot)).
      1 \<le> cmd_to c - cmd_ss c"
    using chained_split_audio [of run w inp target out silences tot]
    by (simp add: chained_def)
qed

lemma example_run_601:
  "split_audio (\<lambda>c. 0) True ''talk.mp3'' 300 ''out'' [(298, 302), (600, 3004 / 5)] 601 =
     \<lparr>error = None,
      copies = [\<lparr>cmd_clip_num = 1, cmd_input = ''talk.mp3'', cmd_ss = 0, cmd_to = 300,
                  cmd_output = ''out/talk_clip_001.mp3''\<rparr>,
                \<lparr>cmd_clip_num = 2, cmd_input = ''talk.mp3'', cmd_ss = 300, cmd_to = 3002 / 5,
                  cmd_output = ''out/talk_clip_002.mp3''\<rparr>],
      manifest_file = Some [\<lparr>filename = ''talk_clip_001.mp3'', source_start_time = 0\<rparr>,
                            \<lparr>filename = ''talk_clip_002.mp3'', source_start_time = 300\<rparr>]\<rparr>"
  by code_simp

lemma example_split_601:
  "split_point_of 300 [(298, 302), (600, 3004 / 5)] 601 (3002 / 5) = 601"
  by (simp add: split_point_of_def)

theorem short_segment_stops_planning_witness:
  "(3002 / 5 :: rat) < 601 \<and>
   split_point_of 300 [(298, 302), (600, 3004 / 5)] 601 (3002 / 5) - 3002 / 5 < 1 \<and>
   split_loop (\<lambda>c. 0) ''talk.mp3'' 300 ''out'' [(298, 302), (600, 3004 / 5)] 601
     \<lparr>clip_manifest = [], current_pos = 3002 / 5, clip_num = 3, commands = []\<rparr> =
     (None, \<lparr>clip_manifest = [], current_pos = 3002 / 5, clip_num = 3, commands = []\<rparr>) \<and>
   map (\<lambda>c. 1 \<le> cmd_to c - cmd_ss c)
     (copies (split_audio (\<lambda>c. 0) True ''talk.mp3'' 300 ''out'' [(298, 302), (600, 3004 / 5)] 601)) =
     [True, True]"
  using short_segment_stops_planning [of
      "\<lparr>clip_manifest = [], current_pos = 3002 / 5, clip_num = 3, commands = []\<rparr>" 601 300
      "[(298, 302), (600, 3004 / 5)]" "\<lambda>c. 0" "''talk.mp3''" "''out''" True]
  by (simp add: example_split_601 example_run_601)

section \<open>Termination\<close>

text \<open>
  C9. The loop ends. An iteration entered with the cursor before the total duration either
  stops the loop, the split point being less than one second past the cursor, or runs a
  stream copy whose end is at least one second past the cursor; when the copy succeeds
  the loop goes on from that end, and when it fails the loop ends with the exception. So
  the loop runs at most \<open>\<lceil>tot - current_pos st\<rceil>\<close> stream copies from a state \<open>st\<close>, and
  \<open>split_audio\<close> at most \<open>\<lceil>tot\<rceil>\<close>.
\<close>

theorem planning_loop_terminates:
  "(current_pos st < tot \<longrightarrow>
      (split_point_of target silences tot (current_pos st) - current_pos st < 1 \<and>
       split_loop run inp target out silences tot st = (None, st)) \<or>
      (current_pos st + 1 \<le> split_point_of target silences tot (current_pos st) \<and>
       current_pos (advance inp target out silences tot st) =
         split_point_of target silences tot (current_pos st) \<and>
       (split_loop run inp target out silences tot st =
          split_loop run inp target out silences tot (advance inp target out silences tot st) \<or>
        split_loop run inp target out silences tot st =
          (Some CalledProcessError,
           st\<lparr>commands := commands st @ [next_command inp target out silences tot st]\<rparr>)))) \<and>
   length (commands (snd (split_loop run inp target out silences tot st))) \<le>
     length (commands st) + nat \<lceil>tot - current_pos st\<rceil> \<and>
   length (copies (split_audio run w inp target out silences tot)) \<le> nat \<lceil>tot\<rceil>"
proof (intro conjI impI)
  assume lt: "current_pos st < tot"
  show "(split_point_of target silences tot (current_pos st) - current_pos st < 1 \<and>
       split_loop run inp target out silences tot st = (None, st)) \<or>
      (current_pos st + 1 \<le> split_point_of target silences tot (current_pos st) \<and>
       current_pos (advance inp target out silences tot st) =
         split_point_of target silences tot (current_pos st) \<and>
       (split_loop run inp target out silences tot st =
          split_loop run inp target out silences tot (advance inp target out silences tot st) \<or>
        split_loop run inp target out silences tot st =
          (Some CalledProcessError,
           st\<lparr>commands := commands st @ [next_command inp target out silences tot st]\<rparr>)))"
  proof (cases "continues target silences tot st")
    case False
    with lt show ?thesis
      by (simp add: split_loop_stop) (simp add: continues_def)
  next
    case True
    then have "current_pos st + 1 \<le> split_point_of target silences tot (current_pos st)"
      by (simp add: continues_def)
    moreover have "current_pos (advance inp target out silences tot st) =
         split_point_of target silences tot (current_pos st)"
      by (simp add: advance_def)
    moreover have "split_loop run inp target out silences tot st =
          split_loop run inp target out silences tot (advance inp target out silences tot st) \<or>
        split_loop run inp target out silences tot st =
          (Some CalledProcessError,
           st\<lparr>commands := commands st @ [next_command inp target out silences tot st]\<rparr>)"
      using True split_loop_step [of target silences tot st run inp out]
        split_loop_fail [of target silences tot st run inp out]
      by blast
    ultimately show ?thesis by blast
  qed
next
  show "length (commands (snd (split_loop run inp target out silences tot st))) \<le>
     length (commands st) + nat \<lceil>tot - current_pos st\<rceil>"
    by (rule split_loop_length)
next
  show "length (copies (split_audio run w inp target out silences tot)) \<le> nat \<lceil>tot\<rceil>"
    using split_loop_length [of run inp target out silences tot initial_state]
    by (simp add: copies_split_audio) (simp add: initial_state_def)
qed

lemma example_split_at_300:
  "split_point_of 300 [(298, 302), (600, 3004 / 5)] 601 300 = 3002 / 5"
  by (simp add: split_point_of_def best_silence_of_def lt_inf_def)

theorem planning_loop_terminates_witness:
  "(300 :: rat) < 601 \<and>
   (300 :: rat) + 1 \<le> split_point_of 300 [(298, 302), (600, 3004 / 5)] 601 300 \<and>
   (3002 / 5 :: rat) < 601 \<and>
   split_loop (\<lambda>c. 0) ''talk.mp3'' 300 ''out'' [(298, 302), (600, 3004 / 5)] 601
     \<lparr>clip_manifest = [], current_pos = 3002 / 5, clip_num = 3, commands = []\<rparr> =
     (None, \<lparr>clip_manifest = [], current_pos = 3002 / 5, clip_num = 3, commands = []\<rparr>) \<and>
   length (copies (split_audio (\<lambda>c. 0) True ''talk.mp3'' 300 ''out''
      [(298, 302), (600, 3004 / 5)] 601)) \<le> 601"
  using planning_loop_terminates [of
      "\<lparr>clip_manifest = [], current_pos = 3002 / 5, clip_num = 3, commands = []\<rparr>" 601 300
      "[(298, 302), (600, 3004 / 5)]" "\<lambda>c. 0" "''talk.mp3''" "''out''" True]
  by (simp add: example_split_601 example_split_at_300)

section \<open>The planned clips\<close>

lemma best_silence_mem:
  assumes "best_silence_of cur t xs = Some b"
  shows "b \<in> set xs"
proof (cases "\<exists>s \<in> set xs. eligible cur s")
  case True
  from scan_silences_start [OF True, of t] obtain r where
    r: "scan_silences cur t xs (None, None) = (Some r, Some (dist_to t r))" "first_min cur t xs r"
    by blast
  from r(1) assms have "r = b" by (simp add: best_silence_of_def)
  with r(2) show ?thesis by (auto simp: first_min_def)
next
  case False
  then have "scan_silences cur t xs (None, None) = (None, None)"
    by (intro scan_silences_no_eligible) simp
  with assms show ?thesis by (simp add: best_silence_of_def)
qed

lemma split_point_le:
  assumes "\<forall>s \<in> set silences. mid_point s \<le> tot"
  shows "split_point_of target silences tot cur \<le> tot"
proof (cases "best_silence_of cur (cur + target) silences")
  case None
  then show ?thesis by (simp add: split_point_of_def Let_def)
next
  case (Some b)
  then have "mid_point b \<le> tot"
    using assms best_silence_mem by blast
  with Some show ?thesis
    by (simp add: split_point_of_def mid_point_def Let_def)
qed

lemma split_loop_cursor_le:
  assumes "\<forall>s \<in> set silences. mid_point s \<le> tot" and "current_pos st \<le> tot"
  shows "current_pos (snd (split_loop run inp target out silences tot st)) \<le> tot"
  using assms(2)
proof (induction st rule: split_loop_state_induct [where target = target and silences = silences
      and tot = tot and inp = inp and out = out])
  case (1 st)
  show ?case
  proof (cases "continues target silences tot st")
    case False
    with "1.prems" show ?thesis
      by (simp add: split_loop_stop)
  next
    case True
    show ?thesis
    proof (cases "run (next_command inp target out silences tot st) = 0")
      case True
      have "current_pos (advance inp target out silences tot st) \<le> tot"
        using split_point_le [OF assms(1)] by (simp add: advance_def)
      with True \<open>continues target silences tot st\<close> "1.IH" show ?thesis
        by (simp add: split_loop_step)
    next
      case False
      with \<open>continues target silences tot st\<close> "1.prems" show ?thesis
        by (simp add: split_loop_fail)
    qed
  qed
qed

lemma chained_increasing:
  assumes "chained cs" and "i < j" and "j < length cs"
  shows "cmd_ss (cs ! i) < cmd_ss (cs ! j)"
proof -
  have step: "cmd_ss (cs ! k) < cmd_ss (cs ! Suc k)" if "Suc k < length cs" for k
  proof -
    from that have "cs ! k \<in> set cs" by simp
    with assms(1) have "1 \<le> cmd_to (cs ! k) - cmd_ss (cs ! k)"
      by (simp add: chained_def)
    moreover from assms(1) that have "cmd_to (cs ! k) = cmd_ss (cs ! Suc k)"
      by (simp add: chained_def)
    ultimately show ?thesis by simp
  qed
  have "transp ((<) :: rat \<Rightarrow> rat \<Rightarrow> bool)" by (rule transp_on_less)
  then have "sorted_wrt (<) (map cmd_ss cs)"
    using step by (simp add: sorted_wrt_iff_nth_Suc_transp)
  with assms(2,3) show ?thesis
    by (simp add: sorted_wrt_iff_nth_less)
qed

text \<open>
  C1, as amended. The stream copies that \<open>split_audio\<close> runs are the planned clips, in
  order. The first starts at 0, each starts where the one before ended, and the starts
  increase strictly. When the total duration is positive, no silence has its mid point
  after the total duration and no stream copy failed, the last clip ends at the total
  duration, unless the split point computed where the clips end (at 0 when there is
  none) lies less than one second further, in which case the clips end there.
\<close>

theorem clip_plans_chain:
  assumes "r = split_audio run w inp target out silences tot"
  shows "(copies r \<noteq> [] \<longrightarrow> cmd_ss (hd (copies r)) = 0) \<and>
         (\<forall>i. Suc i < length (copies r) \<longrightarrow>
            cmd_to (copies r ! i) = cmd_ss (copies r ! Suc i)) \<and>
         (\<forall>i j. i < j \<and> j < length (copies r) \<longrightarrow>
            cmd_ss (copies r ! i) < cmd_ss (copies r ! j)) \<and>
         (0 < tot \<and> (\<forall>s \<in> set silences. mid_point s \<le> tot) \<and>
          error r \<noteq> Some CalledProcessError \<longrightarrow>
            (copies r \<noteq> [] \<and> cmd_to (last (copies r)) = tot) \<or>
            (planned_end (copies r) < tot \<and>
             split_point_of target silences tot (planned_end (copies r)) -
               planned_end (copies r) < 1))"
proof (intro conjI impI allI)
  have ch: "chained (copies r)"
    unfolding assms by (rule chained_split_audio)
  then show "cmd_ss (hd (copies r)) = 0" if "copies r \<noteq> []"
    using that by (simp add: chained_def)
  from ch show "cmd_to (copies r ! i) = cmd_ss (copies r ! Suc i)"
    if "Suc i < length (copies r)" for i
    using that by (simp add: chained_def)
  from ch show "cmd_ss (copies r ! i) < cmd_ss (copies r ! j)"
    if "i < j \<and> j < length (copies r)" for i j
    using that chained_increasing by blast
next
  let ?res = "split_loop run inp target out silences tot initial_state"
  assume a: "0 < tot \<and> (\<forall>s \<in> set silences. mid_point s \<le> tot) \<and>
          error r \<noteq> Some CalledProcessError"
  then have none: "fst ?res = None"
    unfolding assms by (simp add: error_split_audio)
  have c: "copies r = commands (snd ?res)"
    unfolding assms by (rule copies_split_audio)
  from split_loop_complete [OF loop_inv_initial none]
  have inv: "loop_inv (snd ?res)" and stop: "\<not> continues target silences tot (snd ?res)"
    by simp_all
  from inv have pos: "current_pos (snd ?res) = planned_end (copies r)"
    by (simp add: loop_inv_def c)
  have le: "planned_end (copies r) \<le> tot"
    using split_loop_cursor_le [of silences tot initial_state run inp target out] a pos
    by (simp add: initial_state_def)
  show "(copies r \<noteq> [] \<and> cmd_to (last (copies r)) = tot) \<or>
            (planned_end (copies r) < tot \<and>
             split_point_of target silences tot (planned_end (copies r)) -
               planned_end (copies r) < 1)"
  proof (cases "planned_end (copies r) < tot")
    case True
    with stop pos show ?thesis
      by (simp add: continues_def)
  next
    case False
    with le have "planned_end (copies r) = tot" by simp
    with a show ?thesis
      by (auto simp: planned_end_def split: if_splits)
  qed
qed

lemma example_run_600:
  "split_audio (\<lambda>c. 0) True ''talk.mp3'' 300 ''out'' [(298, 302)] 600 =
     \<lparr>error = None,
      copies = [\<lparr>cmd_clip_num = 1, cmd_input = ''talk.mp3'', cmd_ss = 0, cmd_to = 300,
                  cmd_output = ''out/talk_clip_001.mp3''\<rparr>,
                \<lparr>cmd_clip_num = 2, cmd_input = ''talk.mp3'', cmd_ss = 300, cmd_to = 600,
                  cmd_output = ''out/talk_clip_002.mp3''\<rparr>],
      manifest_file = Some [\<lparr>filename = ''talk_clip_001.mp3'', source_start_time = 0\<rparr>,
                            \<lparr>filename = ''talk_clip_002.mp3'', source_start_time = 300\<rparr>]\<rparr>"
  by code_simp

theorem clip_plans_chain_witness:
  "(0 :: rat) < 600 \<and> mid_point (298, 302) \<le> 600 \<and>
   error (split_audio (\<lambda>c. 0) True ''talk.mp3'' 300 ''out'' [(298, 302)] 600) \<noteq>
     Some CalledProcessError \<and>
   map clip_plan (copies (split_audio (\<lambda>c. 0) True ''talk.mp3'' 300 ''out'' [(298, 302)] 600)) =
     [(1, 0, 300), (2, 300, 600)] \<and>
   cmd_to (last (copies (split_audio (\<lambda>c. 0) True ''talk.mp3'' 300 ''out'' [(298, 302)] 600))) = 600"
  using clip_plans_chain [OF refl, of "\<lambda>c. 0" True "''talk.mp3''" 300 "''out''" "[(298, 302)]" 600]
  by (simp add: example_run_600 mid_point_def clip_plan_def)

lemma example_run_late_silence:
  "split_audio (\<lambda>c. 0) True ''talk.mp3'' 3 ''out'' [(2, 4), (9, 12)] 10 =
     \<lparr>error = None,
      copies = [\<lparr>cmd_clip_num = 1, cmd_input = ''talk.mp3'', cmd_ss = 0, cmd_to = 3,
                  cmd_output = ''out/talk_clip_001.mp3''\<rparr>,
                \<lparr>cmd_clip_num = 2, cmd_input = ''talk.mp3'', cmd_ss = 3, cmd_to = 21 / 2,
                  cmd_output = ''out/talk_clip_002.mp3''\<rparr>],
      manifest_file = Some [\<lparr>filename = ''talk_clip_001.mp3'', source_start_time = 0\<rparr>,
                            \<lparr>filename = ''talk_clip_002.mp3'', source_start_time = 3\<rparr>]\<rparr>"
  by code_simp

text \<open>
  The claim as it is written fails: with a total duration of 10, a target of 3 and the
  silences (2, 4) and (9, 12), the second clip ends at 10.5, the mid point of a silence
  that runs past the total duration. The loop ends there because the cursor has passed
  the total duration; no segment shorter than a second was computed.
\<close>

theorem clip_plans_chain_counterexample:
  "(0 :: rat) < 10 \<and> [(2, 4), (9, 12)] \<noteq> ([] :: silence list) \<and>
   error (split_audio (\<lambda>c. 0) True ''talk.mp3'' 3 ''out'' [(2, 4), (9, 12)] 10) = None \<and>
   map clip_plan (copies (split_audio (\<lambda>c. 0) True ''talk.mp3'' 3 ''out'' [(2, 4), (9, 12)] 10)) =
     [(1, 0, 3), (2, 3, 21 / 2)] \<and>
   cmd_to (last (copies (split_audio (\<lambda>c. 0) True ''talk.mp3'' 3 ''out'' [(2, 4), (9, 12)] 10))) \<noteq> 10 \<and>
   10 \<le> cmd_to (last (copies (split_audio (\<lambda>c. 0) True ''talk.mp3'' 3 ''out'' [(2, 4), (9, 12)] 10)))"
  by (simp add: example_run_late_silence clip_plan_def)

section \<open>The manifest\<close>


lemma round_half_even_of_int [simp]: "round_half_even (of_int k) = k"
  by (simp add: round_half_even_def)


lemma round4_exact: "round4 x = x \<longleftrightarrow> (\<exists>k :: int. x = of_int k / 10000)"
proof
  assume "round4 x = x"
  then have "x = of_int (round_half_even (x * 10000)) / 10000"
    by (simp add: round4_def)
  then show "\<exists>k :: int. x = of_int k / 10000" ..
next
  assume "\<exists>k :: int. x = of_int k / 10000"
  then obtain k :: int where "x = of_int k / 10000" ..
  then show "round4 x = x"
    by (simp add: round4_def)
qed






section \<open>Two runs of the planner\<close>

lemma clip_plan_next_command:
  assumes "current_pos st2 = current_pos st1" and "clip_num st2 = clip_num st1"
  shows "clip_plan (next_command inp2 target out2 silences tot st2) =
         clip_plan (next_command inp1 target out1 silences tot st1)"
  using assms by (simp add: clip_plan_def next_command_def)

lemma split_loop_plans:
  assumes "current_pos st2 = current_pos st1" and "clip_num st2 = clip_num st1"
    and "map clip_plan (commands st2) = map clip_plan (commands st1)"
  shows "(prefix (map clip_plan (commands (snd (split_loop run1 inp1 target out1 silences tot st1))))
                 (map clip_plan (commands (snd (split_loop run2 inp2 target out2 silences tot st2)))) \<or>
          prefix (map clip_plan (commands (snd (split_loop run2 inp2 target out2 silences tot st2))))
                 (map clip_plan (commands (snd (split_loop run1 inp1 target out1 silences tot st1))))) \<and>
         (fst (split_loop run1 inp1 target out1 silences tot st1) = None \<and>
          fst (split_loop run2 inp2 target out2 silences tot st2) = None \<longrightarrow>
            map clip_plan (commands (snd (split_loop run1 inp1 target out1 silences tot st1))) =
            map clip_plan (commands (snd (split_loop run2 inp2 target out2 silences tot st2))))"
  using assms
proof (induction st1 arbitrary: st2 rule: split_loop_state_induct [where target = target
      and silences = silences and tot = tot and inp = inp1 and out = out1])
  case (1 st1)
  let ?c1 = "next_command inp1 target out1 silences tot st1"
  let ?c2 = "next_command inp2 target out2 silences tot st2"
  let ?a1 = "advance inp1 target out1 silences tot st1"
  let ?a2 = "advance inp2 target out2 silences tot st2"
  have cont: "continues target silences tot st2 = continues target silences tot st1"
    using "1.prems"(1) by (simp add: continues_def)
  have plan: "clip_plan ?c2 = clip_plan ?c1"
    using "1.prems"(1,2) by (rule clip_plan_next_command)
  show ?case
  proof (cases "continues target silences tot st1")
    case False
    with cont "1.prems"(3) show ?thesis
      by (simp add: split_loop_stop)
  next
    case True
    with cont have True2: "continues target silences tot st2" by simp
    have adv: "current_pos ?a2 = current_pos ?a1" "clip_num ?a2 = clip_num ?a1"
      "map clip_plan (commands ?a2) = map clip_plan (commands ?a1)"
      using "1.prems" plan by (simp_all add: advance_def)
    have snoc: "map clip_plan (commands st2 @ [?c2]) = map clip_plan (commands st1 @ [?c1])"
      using "1.prems"(3) plan by simp
    consider (both) "run1 ?c1 = 0" "run2 ?c2 = 0"
      | (neither) "run1 ?c1 \<noteq> 0" "run2 ?c2 \<noteq> 0"
      | (first) "run1 ?c1 \<noteq> 0" "run2 ?c2 = 0"
      | (second) "run1 ?c1 = 0" "run2 ?c2 \<noteq> 0"
      by blast
    then show ?thesis
    proof cases
      case both
      have "split_loop run1 inp1 target out1 silences tot st1 =
            split_loop run1 inp1 target out1 silences tot ?a1"
        using True both(1) by (rule split_loop_step)
      moreover have "split_loop run2 inp2 target out2 silences tot st2 =
            split_loop run2 inp2 target out2 silences tot ?a2"
        using True2 both(2) by (rule split_loop_step)
      ultimately show ?thesis
        using "1.IH" [OF True adv] by simp
    next
      case neither
      have "split_loop run1 inp1 target out1 silences tot st1 =
            (Some CalledProcessError, st1\<lparr>commands := commands st1 @ [?c1]\<rparr>)"
        using True neither(1) by (rule split_loop_fail)
      moreover have "split_loop run2 inp2 target out2 silences tot st2 =
            (Some CalledProcessError, st2\<lparr>commands := commands st2 @ [?c2]\<rparr>)"
        using True2 neither(2) by (rule split_loop_fail)
      ultimately show ?thesis
        using snoc by simp
    next
      case first
      have r1: "split_loop run1 inp1 target out1 silences tot st1 =
            (Some CalledProcessError, st1\<lparr>commands := commands st1 @ [?c1]\<rparr>)"
        using True first(1) by (rule split_loop_fail)
      have r2: "split_loop run2 inp2 target out2 silences tot st2 =
            split_loop run2 inp2 target out2 silences tot ?a2"
        using True2 first(2) by (rule split_loop_step)
      have "prefix (commands ?a2)
              (commands (snd (split_loop run2 inp2 target out2 silences tot ?a2)))"
        by (rule split_loop_prefix)
      then have "prefix (map clip_plan (commands ?a2))
              (map clip_plan (commands (snd (split_loop run2 inp2 target out2 silences tot ?a2))))"
        by (rule map_mono_prefix)
      moreover have "map clip_plan (commands ?a2) = map clip_plan (commands st1 @ [?c1])"
        using snoc by (simp add: advance_def)
      ultimately show ?thesis
        by (simp add: r1 r2)
    next
      case second
      have r1: "split_loop run1 inp1 target out1 silences tot st1 =
            split_loop run1 inp1 target out1 silences tot ?a1"
        using True second(1) by (rule split_loop_step)
      have r2: "split_loop run2 inp2 target out2 silences tot st2 =
            (Some CalledProcessError, st2\<lparr>commands := commands st2 @ [?c2]\<rparr>)"
        using True2 second(2) by (rule split_loop_fail)
      have "prefix (commands ?a1)
              (commands (snd (split_loop run1 inp1 target out1 silences tot ?a1)))"
        by (rule split_loop_prefix)
      then have "prefix (map clip_plan (commands ?a1))
              (map clip_plan (commands (snd (split_loop run1 inp1 target out1 silences tot ?a1))))"
        by (rule map_mono_prefix)
      moreover have "map clip_plan (commands ?a1) = map clip_plan (commands st2 @ [?c2])"
        using snoc by (simp add: advance_def)
      ultimately show ?thesis
        by (simp add: r1 r2)
    qed
  qed
qed

text \<open>
  C8. The planner is deterministic. Take two runs of \<open>split_audio\<close> with the same total
  duration, target and silence list, in any two outside worlds (other input and output
  names, stream copies that fail or not, a manifest that can be written or not). The clip
  plans of one run (sequence number, start and end of each stream copy) are a prefix of
  those of the other, and when no stream copy failed in either run the two sequences are
  the same.
\<close>

theorem planner_deterministic:
  "(prefix (map clip_plan (copies (split_audio run1 w1 inp1 target out1 silences tot)))
           (map clip_plan (copies (split_audio run2 w2 inp2 target out2 silences tot))) \<or>
    prefix (map clip_plan (copies (split_audio run2 w2 inp2 target out2 silences tot)))
           (map clip_plan (copies (split_audio run1 w1 inp1 target out1 silences tot)))) \<and>
   (error (split_audio run1 w1 inp1 target out1 silences tot) \<noteq> Some CalledProcessError \<and>
    error (split_audio run2 w2 inp2 target out2 silences tot) \<noteq> Some CalledProcessError \<longrightarrow>
      map clip_plan (copies (split_audio run1 w1 inp1 target out1 silences tot)) =
      map clip_plan (copies (split_audio run2 w2 inp2 target out2 silences tot)))"
  using split_loop_plans [of initial_state initial_state run1 inp1 target out1 silences tot
      run2 inp2 out2]
  by (simp add: copies_split_audio error_split_audio)

lemma example_run_600_unwritable:
  "split_audio (\<lambda>c. 0) False ''a/b.wav'' 300 ''/tmp'' [(298, 302)] 600 =
     \<lparr>error = Some OSError,
      copies = [\<lparr>cmd_clip_num = 1, cmd_input = ''a/b.wav'', cmd_ss = 0, cmd_to = 300,
                  cmd_output = ''/tmp/b_clip_001.wav''\<rparr>,
                \<lparr>cmd_clip_num = 2, cmd_input = ''a/b.wav'', cmd_ss = 300, cmd_to = 600,
                  cmd_output = ''/tmp/b_clip_002.wav''\<rparr>],
      manifest_file = None\<rparr>"
  by code_simp

theorem planner_deterministic_witness:
  "error (split_audio (\<lambda>c. 0) True ''talk.mp3'' 300 ''out'' [(298, 302)] 600) \<noteq>
     Some CalledProcessError \<and>
   error (split_audio (\<lambda>c. 0) False ''a/b.wav'' 300 ''/tmp'' [(298, 302)] 600) \<noteq>
     Some CalledProcessError \<and>
   map clip_plan (copies (split_audio (\<lambda>c. 0) True ''talk.mp3'' 300 ''out'' [(298, 302)] 600)) =
   map clip_plan (copies (split_audio (\<lambda>c. 0) False ''a/b.wav'' 300 ''/tmp'' [(298, 302)] 600)) \<and>
   map clip_plan (copies (split_audio (\<lambda>c. 0) True ''talk.mp3'' 300 ''out'' [(298, 302)] 600)) =
     [(1, 0, 300), (2, 300, 600)]"
  using planner_deterministic [of "\<lambda>c. 0" True "''talk.mp3''" 300 "''out''" "[(298, 302)]" 600
      "\<lambda>c. 0" False "''a/b.wav''" "''/tmp''"]
  by (simp add: example_run_600 example_run_600_unwritable clip_plan_def)

section \<open>The silence markers\<close>

lemma digit_not_space: "is_digit c \<Longrightarrow> \<not> is_space c"
  by (auto simp: is_digit_def is_space_def)

lemma dot_not_digit [simp]: "\<not> is_digit (CHR ''.'')"
  by (simp add: is_digit_def)

lemma dot_not_space [simp]: "\<not> is_space (CHR ''.'')"
  by (simp add: is_space_def)

lemma digit_not_sign: "is_digit c \<Longrightarrow> c \<noteq> CHR ''-'' \<and> c \<noteq> CHR ''+''"
  by (auto simp: is_digit_def)

lemma strip_number:
  assumes "s \<noteq> []" and "\<not> is_space (hd s)" and "\<not> is_space (last s)"
  shows "strip s = s"
proof -
  from assms(1,2) have "dropWhile is_space s = s"
    by (cases s) simp_all
  moreover from assms(1,3) have "dropWhile is_space (rev s) = rev s"
    by (cases "rev s") (simp_all add: last_rev [symmetric] del: last_rev)
  ultimately show ?thesis
    by (simp add: strip_def)
qed

lemma py_float_unsigned:
  assumes "s \<noteq> []" and "is_digit (hd s)" and "\<not> is_space (last s)"
  shows "py_float s = unsigned_float s"
proof -
  from assms have "strip s = s"
    by (intro strip_number) (simp_all add: digit_not_space)
  moreover from assms(1) obtain c r where s: "s = c # r"
    by (cases s) auto
  moreover from assms(2) s have "c \<noteq> CHR ''-''" "c \<noteq> CHR ''+''"
    using digit_not_sign [of c] by simp_all
  ultimately show ?thesis
    by (simp add: py_float_def)
qed

lemma unsigned_float_digits:
  assumes "ds \<noteq> []" and "list_all is_digit ds"
  shows "unsigned_float ds \<noteq> None"
proof -
  from assms(2) have tw: "takeWhile is_digit ds = ds" and dw: "dropWhile is_digit ds = []"
    by (simp_all add: list_all_iff)
  show ?thesis
    unfolding unsigned_float_def Let_def tw dw using assms(1) by simp
qed

lemma unsigned_float_fraction:
  assumes "ds \<noteq> []" and "list_all is_digit ds" and "list_all is_digit fs"
  shows "unsigned_float (ds @ [CHR ''.''] @ fs) \<noteq> None"
proof -
  from assms(2) have tw: "takeWhile is_digit (ds @ [CHR ''.''] @ fs) = ds"
    and dw: "dropWhile is_digit (ds @ [CHR ''.''] @ fs) = CHR ''.'' # fs"
    by (simp_all add: list_all_iff takeWhile_append2 dropWhile_append2)
  show ?thesis
    unfolding unsigned_float_def Let_def tw dw using assms(1,3) by simp
qed

lemma py_float_digits:
  assumes "ds \<noteq> []" and "list_all is_digit ds"
  shows "py_float ds \<noteq> None"
proof -
  from assms have "is_digit (hd ds)" "is_digit (last ds)"
    by (simp_all add: list_all_iff)
  with assms(1) have "py_float ds = unsigned_float ds"
    by (intro py_float_unsigned) (simp_all add: digit_not_space)
  with unsigned_float_digits [OF assms] show ?thesis by simp
qed

lemma py_float_fraction:
  assumes "ds \<noteq> []" and "list_all is_digit ds" and "list_all is_digit fs"
  shows "py_float (ds @ [CHR ''.''] @ fs) \<noteq> None"
proof -
  let ?g = "ds @ [CHR ''.''] @ fs"
  from assms(1,2) have "is_digit (hd ?g)"
    by (cases ds) simp_all
  moreover have "\<not> is_space (last ?g)"
    using assms(3) by (cases fs rule: rev_cases) (simp_all add: digit_not_space)
  ultimately have "py_float ?g = unsigned_float ?g"
    by (intro py_float_unsigned) simp_all
  with unsigned_float_fraction [OF assms] show ?thesis by simp
qed

lemma match_number_float:
  assumes "match_number s = Some (g, rest)"
  shows "py_float g \<noteq> None"
proof -
  let ?ds = "takeWhile is_digit s"
  have all: "list_all is_digit ?ds"
    by (simp add: list_all_iff) (meson set_takeWhileD)
  have all': "list_all is_digit (takeWhile is_digit r)" for r
    by (simp add: list_all_iff) (meson set_takeWhileD)
  from assms have ne: "?ds \<noteq> []"
    by (auto simp: match_number_def Let_def split: if_splits)
  from assms ne have "g = ?ds \<or> (\<exists>r. g = ?ds @ [CHR ''.''] @ takeWhile is_digit r)"
    by (cases "dropWhile is_digit s") (auto simp: match_number_def Let_def split: if_splits)
  then show ?thesis
    using py_float_digits [OF ne all] py_float_fraction [OF ne all all'] by auto
qed

lemma findall_float: "g \<in> set (findall lit s) \<Longrightarrow> py_float g \<noteq> None"
proof (induction lit s rule: findall.induct)
  case (1 lit s)
  show ?case
  proof (cases "match_at lit s")
    case None
    show ?thesis
    proof (cases s)
      case Nil
      with None "1.prems" show ?thesis
        by (subst (asm) findall.simps) simp
    next
      case (Cons c t)
      with None "1.prems" have "g \<in> set (findall lit t)"
        by (subst (asm) findall.simps) simp
      with None Cons show ?thesis
        by (intro "1.IH"(1))
    qed
  next
    case (Some p)
    obtain g' rest where p: "p = (g', rest)" by (cases p)
    from Some p have g': "py_float g' \<noteq> None"
      using match_number_float by (auto simp: match_at_def split: if_splits)
    from "1.prems" Some p have "g = g' \<or> g \<in> set (findall lit rest)"
      by (subst (asm) findall.simps) auto
    then show ?thesis
    proof
      assume "g = g'"
      with g' show ?thesis by simp
    next
      assume "g \<in> set (findall lit rest)"
      with Some p show ?thesis
        by (intro "1.IH"(2)) simp_all
    qed
  qed
qed

lemma float_pairs_zip:
  assumes "\<forall>p \<in> set ps. py_float (fst p) \<noteq> None \<and> py_float (snd p) \<noteq> None"
  shows "\<exists>silences. float_pairs ps = Inr silences \<and> length silences = length ps \<and>
           (\<forall>i < length ps. py_float (fst (ps ! i)) = Some (fst (silences ! i)) \<and>
                            py_float (snd (ps ! i)) = Some (snd (silences ! i)))"
  using assms
proof (induction ps)
  case Nil
  then show ?case by simp
next
  case (Cons p ps)
  obtain a b where p: "p = (a, b)" by (cases p)
  from Cons.prems p obtain x y where xy: "py_float a = Some x" "py_float b = Some y"
    by auto
  from Cons obtain silences where s: "float_pairs ps = Inr silences" "length silences = length ps"
    "\<forall>i < length ps. py_float (fst (ps ! i)) = Some (fst (silences ! i)) \<and>
                     py_float (snd (ps ! i)) = Some (snd (silences ! i))"
    by auto
  have "float_pairs (p # ps) = Inr ((x, y) # silences)"
    using p xy s(1) by simp
  moreover have "\<forall>i < length (p # ps).
      py_float (fst ((p # ps) ! i)) = Some (fst (((x, y) # silences) ! i)) \<and>
      py_float (snd ((p # ps) ! i)) = Some (snd (((x, y) # silences) ! i))"
    using p xy s(3) by (auto simp: nth_Cons split: nat.splits)
  ultimately show ?case
    using s(2) by auto
qed

text \<open>
  The pairing of the matches. A match of a scan is its label followed at once by a
  digit. When the silence-detection pass does not end the run and each scan finds at
  least one match in its output, \<open>find_silences\<close> returns as many intervals as the
  smaller of the two counts of matches, and the interval at position \<open>i\<close> is made of the
  value of the match at position \<open>i\<close> of the scan for starts and the value of the match
  at position \<open>i\<close> of the scan for ends: matches past the shorter list are dropped. Three
  matches for starts and two for ends give two intervals.
\<close>

lemma matches_paired_in_order:
  assumes "run_command result = Inr output"
    and "starts = findall ''silence_start: '' output"
    and "ends = findall ''silence_end: '' output"
    and "starts \<noteq> []" and "ends \<noteq> []"
  shows "\<exists>silences.
           find_silences result = Inr silences \<and>
           length silences = min (length starts) (length ends) \<and>
           (\<forall>i < length silences.
              py_float (starts ! i) = Some (fst (silences ! i)) \<and>
              py_float (ends ! i) = Some (snd (silences ! i))) \<and>
           (length starts = 3 \<and> length ends = 2 \<longrightarrow> length silences = 2)"
proof -
  have "py_float (fst p) \<noteq> None \<and> py_float (snd p) \<noteq> None"
    if "p \<in> set (zip starts ends)" for p
  proof -
    obtain a b where p: "p = (a, b)" by (cases p)
    with that have "a \<in> set starts" "b \<in> set ends"
      by (auto dest: set_zip_leftD set_zip_rightD)
    then show ?thesis
      unfolding assms(2,3) p using findall_float by simp
  qed
  then have "\<forall>p \<in> set (zip starts ends). py_float (fst p) \<noteq> None \<and> py_float (snd p) \<noteq> None"
    by blast
  from float_pairs_zip [OF this] obtain silences where
    s: "float_pairs (zip starts ends) = Inr silences"
       "length silences = length (zip starts ends)"
       "\<forall>i < length (zip starts ends).
          py_float (fst (zip starts ends ! i)) = Some (fst (silences ! i)) \<and>
          py_float (snd (zip starts ends ! i)) = Some (snd (silences ! i))"
    by blast
  have "find_silences result = Inr silences"
    using assms s(1) by (simp add: find_silences_def Let_def)
  moreover have "length silences = min (length starts) (length ends)"
    using s(2) by simp
  moreover have "\<forall>i < length silences.
              py_float (starts ! i) = Some (fst (silences ! i)) \<and>
              py_float (ends ! i) = Some (snd (silences ! i))"
    using s(2,3) by simp
  ultimately show ?thesis by auto
qed

lemma example_detect_output:
  "run_command \<lparr>returncode = 0, stdout = [],
      stderr = ''silence_start: 1.5 silence_end: 2.25 | silence_start: 10 silence_end: 11.5 silence_start: 20.125''\<rparr> =
   Inr ''silence_start: 1.5 silence_end: 2.25 | silence_start: 10 silence_end: 11.5 silence_start: 20.125''"
  by (simp add: run_command_def)

lemma example_detect_starts:
  "findall ''silence_start: ''
     ''silence_start: 1.5 silence_end: 2.25 | silence_start: 10 silence_end: 11.5 silence_start: 20.125'' =
   [''1.5'', ''10'', ''20.125'']"
  by code_simp

lemma example_detect_ends:
  "findall ''silence_end: ''
     ''silence_start: 1.5 silence_end: 2.25 | silence_start: 10 silence_end: 11.5 silence_start: 20.125'' =
   [''2.25'', ''11.5'']"
  by code_simp

lemma example_detect_silences:
  "find_silences \<lparr>returncode = 0, stdout = [],
      stderr = ''silence_start: 1.5 silence_end: 2.25 | silence_start: 10 silence_end: 11.5 silence_start: 20.125''\<rparr> =
   Inr [(3 / 2, 9 / 4), (10, 23 / 2)]"
  by code_simp

lemma example_matches_paired:
  "run_command \<lparr>returncode = 0, stdout = [],
      stderr = ''silence_start: 1.5 silence_end: 2.25 | silence_start: 10 silence_end: 11.5 silence_start: 20.125''\<rparr> =
   Inr ''silence_start: 1.5 silence_end: 2.25 | silence_start: 10 silence_end: 11.5 silence_start: 20.125'' \<and>
   length (findall ''silence_start: ''
     ''silence_start: 1.5 silence_end: 2.25 | silence_start: 10 silence_end: 11.5 silence_start: 20.125'') = 3 \<and>
   length (findall ''silence_end: ''
     ''silence_start: 1.5 silence_end: 2.25 | silence_start: 10 silence_end: 11.5 silence_start: 20.125'') = 2 \<and>
   find_silences \<lparr>returncode = 0, stdout = [],
      stderr = ''silence_start: 1.5 silence_end: 2.25 | silence_start: 10 silence_end: 11.5 silence_start: 20.125''\<rparr> =
   Inr [(3 / 2, 9 / 4), (10, 23 / 2)]"
  using matches_paired_in_order [OF example_detect_output refl refl]
  by (simp add: example_detect_starts example_detect_ends example_detect_silences
      example_detect_output)

text \<open>
  C5. The claim is about every marker that the silence-detection pass emits, and the code
  breaks it on a stream in which a silence starts before time zero. The pass reports such
  a start with a negative number when the recording opens with silence. The pattern of
  the scan for starts wants a digit right after the label, so the marker
  \<open>silence_start: -0.0013\<close> is not found, while the end marker of the same silence is.
  The start of the second silence is then paired with the end of the first: the pass
  emitted the silences (-0.0013, 2.5) and (10.2, 11), in this order, and
  \<open>find_silences\<close> returns the one interval (10.2, 2.5), whose start is after its end.
\<close>

theorem negative_start_shifts_pairing:
  "findall ''silence_start: ''
     ''silence_start: -0.0013\<newline>silence_end: 2.5 | silence_duration: 2.5013\<newline>silence_start: 10.2\<newline>silence_end: 11 | silence_duration: 0.8\<newline>'' =
     [''10.2''] \<and>
   findall ''silence_end: ''
     ''silence_start: -0.0013\<newline>silence_end: 2.5 | silence_duration: 2.5013\<newline>silence_start: 10.2\<newline>silence_end: 11 | silence_duration: 0.8\<newline>'' =
     [''2.5'', ''11''] \<and>
   find_silences \<lparr>returncode = 0, stdout = [],
      stderr = ''silence_start: -0.0013\<newline>silence_end: 2.5 | silence_duration: 2.5013\<newline>silence_start: 10.2\<newline>silence_end: 11 | silence_duration: 0.8\<newline>''\<rparr> =
     Inr [(51 / 5, 5 / 2)]"
  by code_simp

section \<open>The script\<close>

lemma find_silences_no_pair:
  assumes "zip (findall ''silence_start: '' (stderr result))
               (findall ''silence_end: '' (stderr result)) = []"
  shows "find_silences result = Inl (SystemExit 1)"
proof -
  from assms have "findall ''silence_start: '' (stderr result) = [] \<or>
      findall ''silence_end: '' (stderr result) = []"
    by (cases "findall ''silence_start: '' (stderr result)";
        cases "findall ''silence_end: '' (stderr result)") simp_all
  then show ?thesis
    by (auto simp: find_silences_def run_command_def Let_def)
qed

lemma get_total_duration_status:
  "get_total_duration result = Inl e \<Longrightarrow> status_of e = 1"
  by (auto simp: get_total_duration_def split: if_splits option.splits)

text \<open>
  C6. When the output of the silence-detection pass gives no interval (no start marker
  or no end marker), \<open>find_silences\<close> ends the run with \<open>sys.exit(1)\<close>: the script exits
  with status 1, having run no stream copy and written no manifest. Nothing else is
  tried in its place.
\<close>

theorem no_silence_aborts:
  assumes "zip (findall ''silence_start: '' (stderr (detect w)))
               (findall ''silence_end: '' (stderr (detect w))) = []"
  shows "find_silences (detect w) = Inl (SystemExit 1) \<and>
         main w argv = \<lparr>exit_status = 1, clips = [], manifest = None\<rparr>"
proof
  show fs: "find_silences (detect w) = Inl (SystemExit 1)"
    using assms by (rule find_silences_no_pair)
  show "main w argv = \<lparr>exit_status = 1, clips = [], manifest = None\<rparr>"
    using fs get_total_duration_status [of "probe w"]
    by (auto simp: main_def aborted_def Let_def split: option.splits sum.splits)
qed

lemma example_no_markers:
  "findall ''silence_start: '' ''size=N/A time=00:00:09.98 bitrate=N/A speed= 998x'' = []"
  by code_simp

theorem no_silence_aborts_witness:
  "zip (findall ''silence_start: '' ''size=N/A time=00:00:09.98 bitrate=N/A speed= 998x'')
       (findall ''silence_end: '' ''size=N/A time=00:00:09.98 bitrate=N/A speed= 998x'') = [] \<and>
   main \<lparr>probe = \<lparr>returncode = 0, stdout = ''9.98'', stderr = []\<rparr>,
         detect = \<lparr>returncode = 0, stdout = [],
                   stderr = ''size=N/A time=00:00:09.98 bitrate=N/A speed= 998x''\<rparr>,
         copy_status = (\<lambda>c. 0), manifest_writable = True\<rparr>
     [''find_and_split.py'', ''talk.mp3'', ''5'', ''out''] =
     \<lparr>exit_status = 1, clips = [], manifest = None\<rparr>"
  using no_silence_aborts [of
      "\<lparr>probe = \<lparr>returncode = 0, stdout = ''9.98'', stderr = []\<rparr>,
        detect = \<lparr>returncode = 0, stdout = [],
                  stderr = ''size=N/A time=00:00:09.98 bitrate=N/A speed= 998x''\<rparr>,
        copy_status = (\<lambda>c. 0), manifest_writable = True\<rparr>"
      "[''find_and_split.py'', ''talk.mp3'', ''5'', ''out'']"]
  by (simp add: example_no_markers)

section \<open>External processes that fail\<close>

lemma copy_failure:
  "error (split_audio run w inp target out silences tot) = Some CalledProcessError \<longleftrightarrow>
   (\<exists>c \<in> set (copies (split_audio run w inp target out silences tot)). run c \<noteq> 0)"
proof -
  let ?res = "split_loop run inp target out silences tot initial_state"
  have init: "\<forall>c \<in> set (commands initial_state). run c = 0"
    by (simp add: initial_state_def)
  from split_loop_errors [OF init, of inp target out silences tot]
  consider (ok) "fst ?res = None" "\<forall>c \<in> set (commands (snd ?res)). run c = 0"
    | (failed) "fst ?res = Some CalledProcessError" "commands (snd ?res) \<noteq> []"
        "run (last (commands (snd ?res))) \<noteq> 0"
    by auto
  then show ?thesis
  proof cases
    case ok
    with error_split_audio [of run w inp target out silences tot] show ?thesis
      by (simp add: copies_split_audio)
  next
    case failed
    from failed(2) have mem: "last (commands (snd ?res)) \<in> set (commands (snd ?res))"
      by simp
    from failed(1) error_split_audio [of run w inp target out silences tot]
    have "error (split_audio run w inp target out silences tot) = Some CalledProcessError"
      by simp
    moreover from mem failed(3)
    have "\<exists>c \<in> set (copies (split_audio run w inp target out silences tot)). run c \<noteq> 0"
      unfolding copies_split_audio by (rule rev_bexI)
    ultimately show ?thesis by simp
  qed
qed

lemma copy_failure_no_manifest:
  "error (split_audio run w inp target out silences tot) = Some CalledProcessError \<Longrightarrow>
   manifest_file (split_audio run w inp target out silences tot) = None"
  by (auto simp: split_audio_def split: prod.splits option.splits if_splits)

text \<open>
  C7, as amended. The silence-detection pass is run through \<open>run_command\<close>: it ends the
  run, with \<open>sys.exit(1)\<close>, exactly when its exit status is not zero and its diagnostic
  stream contains \<open>Error\<close> or \<open>failed\<close>; with a non-zero status and no such text the
  run goes on as it does after a zero status. The duration probe and the stream copy are
  run with \<open>check=True\<close>: any non-zero exit status ends the run, whatever the text. After
  a failed probe the script exits with status 1, no stream copy run and no manifest
  written; \<open>split_audio\<close> ends with \<open>CalledProcessError\<close> exactly when a stream copy it
  ran returned a non-zero status, and then writes no manifest.
\<close>

theorem external_failures:
  "(run_command r = Inl (SystemExit 1) \<longleftrightarrow> returncode r \<noteq> 0 \<and> error_text (stderr r)) \<and>
   (\<not> (returncode r \<noteq> 0 \<and> error_text (stderr r)) \<longrightarrow> run_command r = Inr (stderr r)) \<and>
   (returncode r \<noteq> 0 \<and> \<not> error_text (stderr r) \<longrightarrow>
      find_silences r = find_silences (r\<lparr>returncode := 0\<rparr>)) \<and>
   (returncode r \<noteq> 0 \<longrightarrow> get_total_duration r = Inl CalledProcessError) \<and>
   (length argv = 4 \<and> py_float (argv ! 2) \<noteq> None \<and> returncode (probe w) \<noteq> 0 \<longrightarrow>
      main w argv = \<lparr>exit_status = 1, clips = [], manifest = None\<rparr>) \<and>
   (error (split_audio run cw inp target out silences tot) = Some CalledProcessError \<longleftrightarrow>
      (\<exists>c \<in> set (copies (split_audio run cw inp target out silences tot)). run c \<noteq> 0)) \<and>
   (error (split_audio run cw inp target out silences tot) = Some CalledProcessError \<longrightarrow>
      manifest_file (split_audio run cw inp target out silences tot) = None)"
proof (intro conjI)
  show "run_command r = Inl (SystemExit 1) \<longleftrightarrow> returncode r \<noteq> 0 \<and> error_text (stderr r)"
    by (auto simp: run_command_def error_text_def)
  show "\<not> (returncode r \<noteq> 0 \<and> error_text (stderr r)) \<longrightarrow> run_command r = Inr (stderr r)"
    by (auto simp: run_command_def error_text_def)
  show "returncode r \<noteq> 0 \<and> \<not> error_text (stderr r) \<longrightarrow>
      find_silences r = find_silences (r\<lparr>returncode := 0\<rparr>)"
    by (simp add: find_silences_def run_command_def error_text_def)
  show "returncode r \<noteq> 0 \<longrightarrow> get_total_duration r = Inl CalledProcessError"
    by (simp add: get_total_duration_def)
  show "length argv = 4 \<and> py_float (argv ! 2) \<noteq> None \<and> returncode (probe w) \<noteq> 0 \<longrightarrow>
      main w argv = \<lparr>exit_status = 1, clips = [], manifest = None\<rparr>"
    by (auto simp: main_def get_total_duration_def aborted_def)
  show "error (split_audio run cw inp target out silences tot) = Some CalledProcessError \<longleftrightarrow>
      (\<exists>c \<in> set (copies (split_audio run cw inp target out silences tot)). run c \<noteq> 0)"
    by (rule copy_failure)
  show "error (split_audio run cw inp target out silences tot) = Some CalledProcessError \<longrightarrow>
      manifest_file (split_audio run cw inp target out silences tot) = None"
    using copy_failure_no_manifest by blast
qed

lemma example_failed_text: "error_text ''Conversion failed!''"
  by code_simp

lemma example_plain_text: "\<not> error_text ''silence_start: 1.5 silence_end: 2.25''"
  by code_simp

lemma example_nonzero_silences:
  "find_silences \<lparr>returncode = 1, stdout = [], stderr = ''silence_start: 1.5 silence_end: 2.25''\<rparr> =
   Inr [(3 / 2, 9 / 4)]"
  by code_simp

lemma example_minutes: "py_float ''5'' = Some 5"
  by code_simp

lemma example_probe_text: "\<not> error_text ''talk.mp3: No such file or directory''"
  by code_simp

lemma example_probe_failed:
  "main \<lparr>probe = \<lparr>returncode = 1, stdout = [], stderr = ''talk.mp3: No such file or directory''\<rparr>,
         detect = \<lparr>returncode = 0, stdout = [], stderr = ''silence_start: 1.5 silence_end: 2.25''\<rparr>,
         copy_status = (\<lambda>c. 0), manifest_writable = True\<rparr>
     [''find_and_split.py'', ''talk.mp3'', ''5'', ''out''] =
   \<lparr>exit_status = 1, clips = [], manifest = None\<rparr>"
  by code_simp

lemma example_run_600_other:
  "split_audio (\<lambda>c. if cmd_clip_num c = 2 then 1 else 0) False ''a/b.wav'' 300 ''/tmp'' [(298, 302)] 600 =
     \<lparr>error = Some CalledProcessError,
      copies = [\<lparr>cmd_clip_num = 1, cmd_input = ''a/b.wav'', cmd_ss = 0, cmd_to = 300,
                  cmd_output = ''/tmp/b_clip_001.wav''\<rparr>,
                \<lparr>cmd_clip_num = 2, cmd_input = ''a/b.wav'', cmd_ss = 300, cmd_to = 600,
                  cmd_output = ''/tmp/b_clip_002.wav''\<rparr>],
      manifest_file = None\<rparr>"
  by code_simp

theorem external_failures_witness:
  "returncode \<lparr>returncode = 1, stdout = [], stderr = ''Conversion failed!''\<rparr> \<noteq> 0 \<and>
   error_text ''Conversion failed!'' \<and>
   run_command \<lparr>returncode = 1, stdout = [], stderr = ''Conversion failed!''\<rparr> =
     Inl (SystemExit 1) \<and>
   \<not> error_text ''silence_start: 1.5 silence_end: 2.25'' \<and>
   find_silences \<lparr>returncode = 1, stdout = [], stderr = ''silence_start: 1.5 silence_end: 2.25''\<rparr> =
     find_silences \<lparr>returncode = 0, stdout = [], stderr = ''silence_start: 1.5 silence_end: 2.25''\<rparr> \<and>
   length [''find_and_split.py'', ''talk.mp3'', ''5'', ''out''] = 4 \<and>
   py_float ([''find_and_split.py'', ''talk.mp3'', ''5'', ''out''] ! 2) \<noteq> None \<and>
   main \<lparr>probe = \<lparr>returncode = 1, stdout = [], stderr = ''talk.mp3: No such file or directory''\<rparr>,
         detect = \<lparr>returncode = 0, stdout = [], stderr = ''silence_start: 1.5 silence_end: 2.25''\<rparr>,
         copy_status = (\<lambda>c. 0), manifest_writable = True\<rparr>
     [''find_and_split.py'', ''talk.mp3'', ''5'', ''out''] =
     \<lparr>exit_status = 1, clips = [], manifest = None\<rparr> \<and>
   error (split_audio (\<lambda>c. if cmd_clip_num c = 2 then 1 else 0) False ''a/b.wav'' 300 ''/tmp''
            [(298, 302)] 600) = Some CalledProcessError \<and>
   manifest_file (split_audio (\<lambda>c. if cmd_clip_num c = 2 then 1 else 0) False ''a/b.wav'' 300
            ''/tmp'' [(298, 302)] 600) = None"
  using external_failures [of "\<lparr>returncode = 1, stdout = [], stderr = ''Conversion failed!''\<rparr>"
      "[''find_and_split.py'', ''talk.mp3'', ''5'', ''out'']"
      "\<lparr>probe = \<lparr>returncode = 1, stdout = [], stderr = ''talk.mp3: No such file or directory''\<rparr>,
        detect = \<lparr>returncode = 0, stdout = [], stderr = ''silence_start: 1.5 silence_end: 2.25''\<rparr>,
        copy_status = (\<lambda>c. 0), manifest_writable = True\<rparr>"
      "\<lambda>c. if cmd_clip_num c = 2 then 1 else 0" False "''a/b.wav''" 300 "''/tmp''" "[(298, 302)]" 600]
    external_failures [of
      "\<lparr>returncode = 1, stdout = [], stderr = ''silence_start: 1.5 silence_end: 2.25''\<rparr>"]
  by (simp add: example_failed_text example_plain_text example_minutes example_run_600_other)

text \<open>
  The claim as it is written fails for the duration probe: an exit status of 1 with the
  diagnostic \<open>talk.mp3: No such file or directory\<close>, which contains neither \<open>Error\<close>
  nor \<open>failed\<close>, ends the run with status 1.
\<close>

theorem external_failures_counterexample:
  "\<not> error_text ''talk.mp3: No such file or directory'' \<and>
   get_total_duration
     \<lparr>returncode = 1, stdout = [], stderr = ''talk.mp3: No such file or directory''\<rparr> =
     Inl CalledProcessError \<and>
   main \<lparr>probe = \<lparr>returncode = 1, stdout = [], stderr = ''talk.mp3: No such file or directory''\<rparr>,
         detect = \<lparr>returncode = 0, stdout = [], stderr = ''silence_start: 1.5 silence_end: 2.25''\<rparr>,
         copy_status = (\<lambda>c. 0), manifest_writable = True\<rparr>
     [''find_and_split.py'', ''talk.mp3'', ''5'', ''out''] =
     \<lparr>exit_status = 1, clips = [], manifest = None\<rparr>"
  by (simp add: example_probe_text example_probe_failed get_total_duration_def)

section \<open>A file too short to split\<close>

text \<open>
  C10. Let the arguments be well formed, the probe and the silence detection succeed and
  the manifest be writable. When the first split point, computed at 0, is less than one
  second, the script runs no stream copy, writes a manifest holding the empty list and
  exits with status 0. That is so in particular when the total duration is less than one
  second and not more than the target.
\<close>

theorem short_file_empty_manifest:
  assumes "length argv = 4" and "py_float (argv ! 2) = Some minutes"
    and "get_total_duration (probe w) = Inr tot"
    and "find_silences (detect w) = Inr silences"
    and "manifest_writable w"
  shows "(split_point_of (minutes * 60) silences tot 0 - 0 < 1 \<longrightarrow>
            main w argv = \<lparr>exit_status = 0, clips = [], manifest = Some []\<rparr>) \<and>
         (tot < 1 \<and> tot \<le> minutes * 60 \<longrightarrow>
            main w argv = \<lparr>exit_status = 0, clips = [], manifest = Some []\<rparr>)"
proof -
  have stop: "main w argv = \<lparr>exit_status = 0, clips = [], manifest = Some []\<rparr>"
    if "split_point_of (minutes * 60) silences tot 0 - 0 < 1"
  proof -
    from that have "\<not> continues (minutes * 60) silences tot initial_state"
      by (simp add: continues_def initial_state_def)
    then have "split_loop (copy_status w) (argv ! 1) (minutes * 60) (argv ! 3) silences tot
        initial_state = (None, initial_state)"
      by (rule split_loop_stop)
    with assms show ?thesis
      by (simp add: main_def split_audio_def initial_state_def)
  qed
  moreover have "split_point_of (minutes * 60) silences tot 0 - 0 < 1"
    if "tot < 1 \<and> tot \<le> minutes * 60"
    using that by (simp add: split_point_of_def)
  ultimately show ?thesis by blast
qed

lemma example_short_probe:
  "get_total_duration \<lparr>returncode = 0, stdout = ''0.600000\<newline>'', stderr = []\<rparr> = Inr (3 / 5)"
  by (simp add: get_total_duration_def py_float_def strip_def is_space_def unsigned_float_def
      is_digit_def digits_value_def digit_value_def)

lemma example_short_silences:
  "find_silences \<lparr>returncode = 0, stdout = [], stderr = ''silence_start: 0.1 silence_end: 0.4''\<rparr> =
   Inr [(1 / 10, 2 / 5)]"
  by code_simp

theorem short_file_empty_manifest_witness:
  "length [''find_and_split.py'', ''talk.mp3'', ''5'', ''out''] = 4 \<and>
   py_float ([''find_and_split.py'', ''talk.mp3'', ''5'', ''out''] ! 2) = Some 5 \<and>
   get_total_duration \<lparr>returncode = 0, stdout = ''0.600000\<newline>'', stderr = []\<rparr> = Inr (3 / 5) \<and>
   find_silences \<lparr>returncode = 0, stdout = [], stderr = ''silence_start: 0.1 silence_end: 0.4''\<rparr> =
     Inr [(1 / 10, 2 / 5)] \<and>
   split_point_of (5 * 60) [(1 / 10, 2 / 5)] (3 / 5) 0 - 0 < 1 \<and>
   (3 / 5 :: rat) < 1 \<and> (3 / 5 :: rat) \<le> 5 * 60 \<and>
   main \<lparr>probe = \<lparr>returncode = 0, stdout = ''0.600000\<newline>'', stderr = []\<rparr>,
         detect = \<lparr>returncode = 0, stdout = [], stderr = ''silence_start: 0.1 silence_end: 0.4''\<rparr>,
         copy_status = (\<lambda>c. 0), manifest_writable = True\<rparr>
     [''find_and_split.py'', ''talk.mp3'', ''5'', ''out''] =
     \<lparr>exit_status = 0, clips = [], manifest = Some []\<rparr>"
  using short_file_empty_manifest [of "[''find_and_split.py'', ''talk.mp3'', ''5'', ''out'']" 5
      "\<lparr>probe = \<lparr>returncode = 0, stdout = ''0.600000\<newline>'', stderr = []\<rparr>,
        detect = \<lparr>returncode = 0, stdout = [], stderr = ''silence_start: 0.1 silence_end: 0.4''\<rparr>,
        copy_status = (\<lambda>c. 0), manifest_writable = True\<rparr>" "3 / 5" "[(1 / 10, 2 / 5)]"]
  by (simp add: example_minutes example_short_probe example_short_silences split_point_of_def)

end
